theory Spec2Isabelle
  imports Main "HOL-Library.AList"
begin

text \<open>
  A model of the GitBoard dashboard: the repository selection of \<^verbatim>\<open>App\<close> and
  \<^verbatim>\<open>RepoInput\<close> with its URL encoding, the \<^verbatim>\<open>chartData\<close> transform of
  \<^verbatim>\<open>CommitChart\<close>, \<^verbatim>\<open>ContributorsChart\<close> and \<^verbatim>\<open>IssuesChart\<close>, and the effect
  with which each chart fetches, polls and forgets the data of the selected repositories.
  The API client, \<^verbatim>\<open>parseRepoInput\<close>, \<^verbatim>\<open>formatWeekDate\<close> and \<^verbatim>\<open>POLL_INTERVAL_MS\<close>
  live in \<^verbatim>\<open>@/lib/github\<close>; they are parameters of the model or events of its
  environment.
\<close>

section \<open>Data model\<close>

text \<open>
  \<^verbatim>\<open>ParsedRepo\<close> (imported by every component from \<^verbatim>\<open>@/lib/github\<close>) is the pair
  of strings \<^verbatim>\<open>{owner, name}\<close>. Every component keys its per-repository state by the
  template string \<^verbatim>\<open>`${repo.owner}/${repo.name}`\<close>.
\<close>

record ParsedRepo =
  owner :: string
  name :: string

definition repo_key :: "ParsedRepo \<Rightarrow> string" where
  "repo_key r = owner r @ ''/'' @ name r"

section \<open>Repository selection (App and RepoInput)\<close>

subsection \<open>Adding and removing\<close>

text \<open>
  \<^verbatim>\<open>String.prototype.toLowerCase\<close>. A \<^typ>\<open>char\<close> is a byte: the model folds the ASCII
  letters \<^verbatim>\<open>A\<close>..\<^verbatim>\<open>Z\<close> and keeps every other byte.
\<close>

definition lower_char :: "char \<Rightarrow> char" where
  "lower_char c =
     (case map_of (zip ''ABCDEFGHIJKLMNOPQRSTUVWXYZ'' ''abcdefghijklmnopqrstuvwxyz'') c of
        Some l \<Rightarrow> l
      | None \<Rightarrow> c)"

definition toLowerCase :: "string \<Rightarrow> string" where
  "toLowerCase s = map lower_char s"

text \<open>
  The duplicate check of \<^verbatim>\<open>handleAdd\<close>:
  \<^verbatim>\<open>repos.some((r) => r.owner.toLowerCase() === parsed.owner.toLowerCase() &&
                       r.name.toLowerCase() === parsed.name.toLowerCase())\<close>.
\<close>

definition isDuplicate :: "ParsedRepo list \<Rightarrow> ParsedRepo \<Rightarrow> bool" where
  "isDuplicate rs parsed =
     list_ex (\<lambda>r. toLowerCase (owner r) = toLowerCase (owner parsed) \<and>
                  toLowerCase (name r) = toLowerCase (name parsed)) rs"

text \<open>\<^verbatim>\<open>App.handleAddRepo\<close>: \<^verbatim>\<open>setRepos((prev) => [...prev, repo])\<close>.\<close>

definition handleAddRepo :: "ParsedRepo \<Rightarrow> ParsedRepo list \<Rightarrow> ParsedRepo list" where
  "handleAddRepo r prev = prev @ [r]"

text \<open>\<^verbatim>\<open>App.handleRemoveRepo\<close>: \<^verbatim>\<open>setRepos((prev) => prev.filter((_, i) => i !== index))\<close>.\<close>

definition handleRemoveRepo :: "nat \<Rightarrow> ParsedRepo list \<Rightarrow> ParsedRepo list" where
  "handleRemoveRepo index prev = map snd (filter (\<lambda>(i, _). i \<noteq> index) (enumerate 0 prev))"

text \<open>
  The state that \<^verbatim>\<open>RepoInput.handleAdd\<close> reads and writes: the selection \<^verbatim>\<open>repos\<close>
  (owned by \<^verbatim>\<open>App\<close>, passed down as a prop), the text field \<^verbatim>\<open>inputValue\<close> and the
  validation message \<^verbatim>\<open>error\<close> (here \<open>inputError\<close>), which the component renders in a
  \<^verbatim>\<open>role="alert"\<close> paragraph when it is set.
\<close>

record app =
  repos :: "ParsedRepo list"
  inputValue :: string
  inputError :: "string option"

text \<open>
  \<^verbatim>\<open>RepoInput.handleAdd\<close>. \<^verbatim>\<open>parseRepoInput\<close> lives in \<^verbatim>\<open>@/lib/github\<close> and is a
  parameter here; it returns \<^verbatim>\<open>null\<close> (\<open>None\<close>) for a string it rejects.
\<close>

definition handleAdd :: "(string \<Rightarrow> ParsedRepo option) \<Rightarrow> app \<Rightarrow> app" where
  "handleAdd parseRepoInput s =
     (let s1 = s\<lparr>inputError := None\<rparr> in
      case parseRepoInput (inputValue s1) of
        None \<Rightarrow> s1\<lparr>inputError := Some ''Invalid format. Use owner/repo or a GitHub URL''\<rparr>
      | Some parsed \<Rightarrow>
          if isDuplicate (repos s1) parsed
          then s1\<lparr>inputError := Some ''Repository already added''\<rparr>
          else s1\<lparr>repos := handleAddRepo parsed (repos s1), inputValue := []\<rparr>)"

subsection \<open>The shareable URL\<close>

text \<open>
  \<^verbatim>\<open>String.prototype.split\<close> with a one-character separator: every occurrence of the
  separator ends a piece, so a string with \<open>n\<close> separators gives \<open>n + 1\<close> pieces, and
  the empty string gives one empty piece.
\<close>

fun split :: "char \<Rightarrow> string \<Rightarrow> string list" where
  "split c [] = [[]]"
| "split c (x # xs) =
     (if x = c then [] # split c xs
      else (case split c xs of [] \<Rightarrow> [[x]] | w # ws \<Rightarrow> (x # w) # ws))"

text \<open>\<^verbatim>\<open>Array.prototype.join\<close> with a one-character separator.\<close>

fun join :: "char \<Rightarrow> string list \<Rightarrow> string" where
  "join c [] = []"
| "join c [x] = x"
| "join c (x # y # ys) = x @ c # join c (y # ys)"

text \<open>
  The callback of \<^verbatim>\<open>getReposFromUrl\<close>:
  \<^verbatim>\<open>const [owner, name] = r.split("/"); if (owner && name) return { owner, name }; return null;\<close>
  The destructuring takes the first two pieces; a missing second piece is \<^verbatim>\<open>undefined\<close>,
  and an empty string is falsy.
\<close>

definition parse_segment :: "string \<Rightarrow> ParsedRepo option" where
  "parse_segment r =
     (case split CHR ''/'' r of
        ow # nm # _ \<Rightarrow> if ow \<noteq> [] \<and> nm \<noteq> [] then Some \<lparr>owner = ow, name = nm\<rparr> else None
      | _ \<Rightarrow> None)"

text \<open>
  The page location is modelled by the value of its \<^verbatim>\<open>repos\<close> query parameter
  (\<open>None\<close> when the parameter is absent): \<^verbatim>\<open>url.searchParams.set\<close> stores the string
  and \<^verbatim>\<open>params.get\<close> reads it back, the percent-encoding being undone by the reader.
  \<^verbatim>\<open>getReposFromUrl\<close> returns the empty list for an absent or empty parameter
  (\<^verbatim>\<open>if (!reposParam) return []\<close>).
\<close>

definition getReposFromUrl :: "string option \<Rightarrow> ParsedRepo list" where
  "getReposFromUrl reposParam =
     (case reposParam of
        None \<Rightarrow> []
      | Some p \<Rightarrow> if p = [] then [] else List.map_filter parse_segment (split CHR '','' p))"

definition updateUrl :: "ParsedRepo list \<Rightarrow> string option" where
  "updateUrl rs = (if rs = [] then None else Some (join CHR '','' (map repo_key rs)))"

text \<open>
  Which references survive a trip through the URL: the encoding has no escape for its two
  separators, and the decoder drops a segment with an empty owner or name.
\<close>

definition url_safe :: "ParsedRepo \<Rightarrow> bool" where
  "url_safe r = (owner r \<noteq> [] \<and> name r \<noteq> [] \<and>
     CHR ''/'' \<notin> set (owner r) \<and> CHR '','' \<notin> set (owner r) \<and>
     CHR ''/'' \<notin> set (name r) \<and> CHR '','' \<notin> set (name r))"


section \<open>Per-repository fetch data\<close>

text \<open>
  One weekly data point. The three series types of \<^verbatim>\<open>@/lib/github\<close> have the same
  shape: \<^verbatim>\<open>CommitActivity {week, total}\<close>, \<^verbatim>\<open>ContributorWeek {week, contributors}\<close>
  and \<^verbatim>\<open>IssueWeek {week, issues}\<close>; \<open>amount\<close> stands for the second field of each.
\<close>

record WeekPoint =
  week :: int
  amount :: int

text \<open>
  The interface \<^verbatim>\<open>RepoData\<close> of \<^verbatim>\<open>IssuesChart\<close> has the fields
  \<^verbatim>\<open>repo, data, error, loading\<close>; the one of \<^verbatim>\<open>CommitChart\<close> and
  \<^verbatim>\<open>ContributorsChart\<close> adds \<^verbatim>\<open>computing\<close> (\<^verbatim>\<open>CommitChart\<close> calls the series field
  \<^verbatim>\<open>activity\<close>). \<^verbatim>\<open>null\<close> is \<open>None\<close>.
\<close>

record IssuesRepoData =
  repo :: ParsedRepo
  data :: "WeekPoint list option"
  error :: "string option"
  loading :: bool

record RepoData = IssuesRepoData +
  computing :: bool

text \<open>
  A JavaScript \<^verbatim>\<open>Map\<close> with string keys iterates in insertion order, and \<^verbatim>\<open>set\<close> on a
  key that is present keeps its position: an association list with \<^const>\<open>AList.update\<close>
  (\<^verbatim>\<open>set\<close>), \<^const>\<open>map_of\<close> (\<^verbatim>\<open>get\<close>) and \<^const>\<open>AList.delete\<close> (\<^verbatim>\<open>delete\<close>).
\<close>

type_synonym 'a jsmap = "(string \<times> 'a) list"

section \<open>Series aligner (the chartData transform of each chart)\<close>

text \<open>
  A row of the merged dataset: \<^verbatim>\<open>{week, weekTimestamp, [key]: number}\<close>. The label
  \<^verbatim>\<open>week\<close> is \<open>week_label\<close> here; the columns keyed by repository are the map \<open>cols\<close>.
\<close>

record ChartDataPoint =
  week_label :: string
  weekTimestamp :: int
  cols :: "string \<rightharpoonup> int"

text \<open>The predicate of the base search: \<^verbatim>\<open>(d) => d.data && d.data.length > 0\<close>.\<close>

definition has_series :: "'a IssuesRepoData_scheme \<Rightarrow> bool" where
  "has_series d = (case data d of None \<Rightarrow> False | Some a \<Rightarrow> 0 < length a)"

text \<open>\<^verbatim>\<open>Array.from(repoData.values()).find(...)\<close>: the first entry of the map that has data.\<close>

definition baseRepoData :: "('a IssuesRepoData_scheme) jsmap \<Rightarrow> 'a IssuesRepoData_scheme option" where
  "baseRepoData repoData = List.find has_series (map snd repoData)"

text \<open>The series the rows are generated from; no rows when there is no base.\<close>

definition base_series :: "('a IssuesRepoData_scheme) jsmap \<Rightarrow> WeekPoint list" where
  "base_series repoData =
     (case baseRepoData repoData of
        None \<Rightarrow> []
      | Some b \<Rightarrow> (case data b of None \<Rightarrow> [] | Some a \<Rightarrow> a))"

text \<open>
  The body of \<^verbatim>\<open>repoKeys.forEach\<close> assigns \<^verbatim>\<open>point[key]\<close> or leaves the point as it
  is; \<open>None\<close> is "no assignment".
\<close>

definition set_col :: "string \<Rightarrow> int option \<Rightarrow> ChartDataPoint \<Rightarrow> ChartDataPoint" where
  "set_col key v point = (case v of None \<Rightarrow> point | Some x \<Rightarrow> point\<lparr>cols := (cols point)(key \<mapsto> x)\<rparr>)"

definition new_point :: "(int \<Rightarrow> string) \<Rightarrow> WeekPoint \<Rightarrow> ChartDataPoint" where
  "new_point formatWeekDate wk =
     \<lparr>week_label = formatWeekDate (week wk), weekTimestamp = week wk, cols = Map.empty\<rparr>"

text \<open>
  \<^verbatim>\<open>CommitChart\<close>:
  \<^verbatim>\<open>if (data?.activity && data.activity[index]) point[key] = data.activity[index].total\<close>.
  An array element is an object, so it is truthy exactly when the index is in range.
\<close>

definition commit_value :: "RepoData jsmap \<Rightarrow> nat \<Rightarrow> string \<Rightarrow> int option" where
  "commit_value repoData index key =
     (case map_of repoData key of
        None \<Rightarrow> None
      | Some d \<Rightarrow>
          (case data d of
             None \<Rightarrow> None
           | Some a \<Rightarrow> if index < length a then Some (amount (a ! index)) else None))"

definition CommitChart_chartData ::
  "(int \<Rightarrow> string) \<Rightarrow> ParsedRepo list \<Rightarrow> RepoData jsmap \<Rightarrow> ChartDataPoint list" where
  "CommitChart_chartData formatWeekDate rs repoData =
     (let repoKeys = map repo_key rs in
      map (\<lambda>(index, wk).
             fold (\<lambda>key. set_col key (commit_value repoData index key)) repoKeys
               (new_point formatWeekDate wk))
        (enumerate 0 (base_series repoData)))"

text \<open>\<^verbatim>\<open>Array.prototype.slice(-n)\<close>: the last \<open>n\<close> elements, all of them when there are fewer.\<close>

definition slice_last :: "nat \<Rightarrow> 'a list \<Rightarrow> 'a list" where
  "slice_last n xs = drop (length xs - n) xs"

text \<open>
  \<^verbatim>\<open>ContributorsChart\<close>:
  \<^verbatim>\<open>const weekData = data.data.find((w) => w.week === week.week);
  if (weekData) point[key] = weekData.contributors\<close>, over
  \<^verbatim>\<open>baseRepoData.data.slice(-52)\<close>.
\<close>

definition contributors_value :: "RepoData jsmap \<Rightarrow> WeekPoint \<Rightarrow> string \<Rightarrow> int option" where
  "contributors_value repoData wk key =
     (case map_of repoData key of
        None \<Rightarrow> None
      | Some d \<Rightarrow>
          (case data d of
             None \<Rightarrow> None
           | Some a \<Rightarrow>
               (case List.find (\<lambda>w. week w = week wk) a of
                  None \<Rightarrow> None
                | Some weekData \<Rightarrow> Some (amount weekData))))"

definition ContributorsChart_chartData ::
  "(int \<Rightarrow> string) \<Rightarrow> ParsedRepo list \<Rightarrow> RepoData jsmap \<Rightarrow> ChartDataPoint list" where
  "ContributorsChart_chartData formatWeekDate rs repoData =
     (let repoKeys = map repo_key rs;
          last52Weeks = slice_last 52 (base_series repoData) in
      map (\<lambda>wk.
             fold (\<lambda>key. set_col key (contributors_value repoData wk key)) repoKeys
               (new_point formatWeekDate wk))
        last52Weeks)"

text \<open>
  \<^verbatim>\<open>IssuesChart\<close>:
  \<^verbatim>\<open>const weekData = data.data.find((w) => w.week === week.week);
  point[key] = weekData?.issues ?? 0\<close>.
\<close>

definition issues_value :: "IssuesRepoData jsmap \<Rightarrow> WeekPoint \<Rightarrow> string \<Rightarrow> int option" where
  "issues_value repoData wk key =
     (case map_of repoData key of
        None \<Rightarrow> None
      | Some d \<Rightarrow>
          (case data d of
             None \<Rightarrow> None
           | Some a \<Rightarrow>
               Some (case List.find (\<lambda>w. week w = week wk) a of
                       None \<Rightarrow> 0
                     | Some weekData \<Rightarrow> amount weekData)))"

definition IssuesChart_chartData ::
  "(int \<Rightarrow> string) \<Rightarrow> ParsedRepo list \<Rightarrow> IssuesRepoData jsmap \<Rightarrow> ChartDataPoint list" where
  "IssuesChart_chartData formatWeekDate rs repoData =
     (let repoKeys = map repo_key rs in
      map (\<lambda>wk.
             fold (\<lambda>key. set_col key (issues_value repoData wk key)) repoKeys
               (new_point formatWeekDate wk))
        (base_series repoData))"

text \<open>
  The base as the specification describes it: the first repository, in selection order,
  whose entry has a non-empty series.
\<close>

definition first_ready :: "ParsedRepo list \<Rightarrow> ('a IssuesRepoData_scheme) jsmap \<Rightarrow> ParsedRepo option" where
  "first_ready rs repoData =
     List.find (\<lambda>r. case map_of repoData (repo_key r) of None \<Rightarrow> False | Some d \<Rightarrow> has_series d) rs"

text \<open>
  The clean-up of every chart's effect:
  \<^verbatim>\<open>for (const key of next.keys()) if (!currentKeys.has(key)) next.delete(key)\<close>.
\<close>

definition cleanup_removed :: "string list \<Rightarrow> 'a jsmap \<Rightarrow> 'a jsmap" where
  "cleanup_removed currentKeys m = filter (\<lambda>(k, _). k \<in> set currentKeys) m"

section \<open>Fetch orchestrator of CommitChart and ContributorsChart\<close>

text \<open>
  The effect of \<^verbatim>\<open>ContributorsChart\<close> is the effect of \<^verbatim>\<open>CommitChart\<close> with
  \<^verbatim>\<open>fetchContributorsOverTime\<close> for \<^verbatim>\<open>fetchCommitActivity\<close> and \<^verbatim>\<open>data\<close> for
  \<^verbatim>\<open>activity\<close>; one model serves both.

  The component state is the \<^verbatim>\<open>repoData\<close> map and the ref \<^verbatim>\<open>pollTimers\<close> (key to timer
  id). Around it the model keeps what the browser holds: the table of scheduled timeouts
  (id, due time, and the repository the callback \<^verbatim>\<open>() => fetchRepo(repo, true)\<close> closes
  over), the client promises that have not settled yet (id and repository), a clock, and
  a log of every call of the client. Ids are positive, so a timer id is truthy.
\<close>

record orch =
  prop_repos :: "ParsedRepo list"
  repoData :: "RepoData jsmap"
  pollTimers :: "nat jsmap"
  timeouts :: "(nat \<times> nat \<times> ParsedRepo) list"
  requests :: "(nat \<times> ParsedRepo) list"
  fetch_log :: "ParsedRepo list"
  next_id :: nat
  now :: nat

definition init :: orch where
  "init = \<lparr>prop_repos = [], repoData = [], pollTimers = [], timeouts = [], requests = [],
            fetch_log = [], next_id = 1, now = 0\<rparr>"

text \<open>
  How a client promise settles: with a series, with the distinguished
  \<^verbatim>\<open>StatsComputingError\<close>, or with any other error and its \<^verbatim>\<open>message\<close>.
\<close>

datatype fetch_error = StatsComputingError | OtherError string

datatype outcome = Fulfilled "WeekPoint list" | Rejected fetch_error

definition clearTimeout :: "nat \<Rightarrow> (nat \<times> nat \<times> ParsedRepo) list \<Rightarrow> (nat \<times> nat \<times> ParsedRepo) list" where
  "clearTimeout timer ts = filter (\<lambda>(t, _, _). t \<noteq> timer) ts"

text \<open>
  \<^verbatim>\<open>fetchRepo(repo, isRetry)\<close> up to the call of the client: the entry is set to loading
  (or computing, on a retry), keeping the series of an existing entry, and the call is
  issued.
\<close>

definition fetchRepo :: "ParsedRepo \<Rightarrow> bool \<Rightarrow> orch \<Rightarrow> orch" where
  "fetchRepo r isRetry s =
     (let key = repo_key r;
          existing = map_of (repoData s) key
      in s\<lparr>repoData :=
             AList.update key
               \<lparr>repo = r, data = (case existing of None \<Rightarrow> None | Some e \<Rightarrow> data e),
                error = None, loading = \<not> isRetry, computing = isRetry\<rparr>
               (repoData s),
           requests := requests s @ [(next_id s, r)],
           fetch_log := fetch_log s @ [r],
           next_id := Suc (next_id s)\<rparr>)"

text \<open>The \<^verbatim>\<open>.then\<close> handler of \<^verbatim>\<open>fetchRepo\<close>.\<close>

definition on_fulfilled :: "ParsedRepo \<Rightarrow> WeekPoint list \<Rightarrow> orch \<Rightarrow> orch" where
  "on_fulfilled r activity s =
     (let key = repo_key r;
          s1 = (case map_of (pollTimers s) key of
                  None \<Rightarrow> s
                | Some timer \<Rightarrow>
                    s\<lparr>timeouts := clearTimeout timer (timeouts s),
                      pollTimers := AList.delete key (pollTimers s)\<rparr>)
      in s1\<lparr>repoData :=
              AList.update key
                \<lparr>repo = r, data = Some activity, error = None, loading = False, computing = False\<rparr>
                (repoData s1)\<rparr>)"

text \<open>
  The \<^verbatim>\<open>.catch\<close> handler of \<^verbatim>\<open>fetchRepo\<close>. \<^verbatim>\<open>POLL_INTERVAL_MS\<close> is a constant of
  \<^verbatim>\<open>@/lib/github\<close> and a parameter here.
\<close>

definition on_rejected :: "nat \<Rightarrow> ParsedRepo \<Rightarrow> fetch_error \<Rightarrow> orch \<Rightarrow> orch" where
  "on_rejected POLL_INTERVAL_MS r err s =
     (let key = repo_key r in
      case err of
        StatsComputingError \<Rightarrow>
          s\<lparr>repoData :=
              AList.update key
                \<lparr>repo = r, data = None, error = None, loading = False, computing = True\<rparr>
                (repoData s),
            timeouts := timeouts s @ [(next_id s, now s + POLL_INTERVAL_MS, r)],
            pollTimers := AList.update key (next_id s) (pollTimers s),
            next_id := Suc (next_id s)\<rparr>
      | OtherError message \<Rightarrow>
          s\<lparr>repoData :=
              AList.update key
                \<lparr>repo = r, data = None, error = Some message, loading = False, computing = False\<rparr>
                (repoData s)\<rparr>)"

text \<open>
  The guard of the effect's loop, on the \<^verbatim>\<open>repoData\<close> of the render the effect belongs to:
  \<^verbatim>\<open>if (existing && (existing.activity || existing.loading || existing.computing)) return\<close>.
  An array is truthy, also when it is empty.
\<close>

definition should_skip :: "RepoData jsmap \<Rightarrow> ParsedRepo \<Rightarrow> bool" where
  "should_skip snapshot r =
     (case map_of snapshot (repo_key r) of
        None \<Rightarrow> False
      | Some existing \<Rightarrow>
          (case data existing of
             Some _ \<Rightarrow> True
           | None \<Rightarrow> loading existing \<or> computing existing))"

text \<open>
  The body of the effect for the selection \<open>rs\<close>: the loop over \<^verbatim>\<open>repos\<close>, the removal of
  the entries of repositories that left the selection, and the clearing of their timers.
  The queued state updates run in the order they were queued.
\<close>

definition effect :: "ParsedRepo list \<Rightarrow> orch \<Rightarrow> orch" where
  "effect rs s =
     (let snapshot = repoData s;
          s1 = fold (\<lambda>r acc. if should_skip snapshot r then acc else fetchRepo r False acc) rs s;
          currentKeys = map repo_key rs;
          removed = filter (\<lambda>(key, timer). key \<notin> set currentKeys) (pollTimers s1)
      in s1\<lparr>prop_repos := rs,
            repoData := cleanup_removed currentKeys (repoData s1),
            timeouts := filter (\<lambda>(t, _, _). t \<notin> set (map snd removed)) (timeouts s1),
            pollTimers := cleanup_removed currentKeys (pollTimers s1)\<rparr>)"

text \<open>
  The function the effect returns:
  \<^verbatim>\<open>for (const timer of pollTimers.current.values()) clearTimeout(timer);
  pollTimers.current.clear()\<close>.
\<close>

definition effect_cleanup :: "orch \<Rightarrow> orch" where
  "effect_cleanup s =
     s\<lparr>timeouts := filter (\<lambda>(t, _, _). t \<notin> set (map snd (pollTimers s))) (timeouts s),
       pollTimers := []\<rparr>"

text \<open>
  What can happen to a mounted chart. \<open>Render rs\<close>: the parent renders it with a new
  \<^verbatim>\<open>repos\<close> array (the first one is the mount). The effect has the dependency list
  \<^verbatim>\<open>[repos]\<close>, so React runs the function returned by the previous run of the effect and
  then the effect again. \<open>Settle i out\<close>: the client promise \<open>i\<close> settles. \<open>TimerFires t\<close>:
  the browser runs the callback of timeout \<open>t\<close>, which it does only once the delay has
  passed. \<open>Advance d\<close>: \<open>d\<close> milliseconds pass. An event that is not enabled changes
  nothing. A render and the run of the effect that follows it are one step: the effect reads
  the \<^verbatim>\<open>repoData\<close> of its render, which is the state at that moment.
\<close>

datatype event = Render "ParsedRepo list" | Settle nat outcome | TimerFires nat | Advance nat

fun step :: "nat \<Rightarrow> event \<Rightarrow> orch \<Rightarrow> orch" where
  "step P (Render rs) s = effect rs (effect_cleanup s)"
| "step P (Settle i out) s =
     (case map_of (requests s) i of
        None \<Rightarrow> s
      | Some r \<Rightarrow>
          (let s1 = s\<lparr>requests := AList.delete i (requests s)\<rparr> in
           case out of
             Fulfilled activity \<Rightarrow> on_fulfilled r activity s1
           | Rejected err \<Rightarrow> on_rejected P r err s1))"
| "step P (TimerFires t) s =
     (case map_of (timeouts s) t of
        None \<Rightarrow> s
      | Some (due, r) \<Rightarrow>
          if due \<le> now s then fetchRepo r True (s\<lparr>timeouts := clearTimeout t (timeouts s)\<rparr>) else s)"
| "step P (Advance d) s = s\<lparr>now := now s + d\<rparr>"

definition run :: "nat \<Rightarrow> event list \<Rightarrow> orch \<Rightarrow> orch" where
  "run P evs s = fold (step P) evs s"

text \<open>
  A repository that waits in the computing state with nothing left to wake it up: its
  entry is computing, and no scheduled timeout and no pending client promise is for it.
\<close>

definition stuck_computing :: "string \<Rightarrow> orch \<Rightarrow> bool" where
  "stuck_computing k s =
     ((case map_of (repoData s) k of None \<Rightarrow> False | Some e \<Rightarrow> computing e) \<and>
      list_all (\<lambda>(t, due, r). repo_key r \<noteq> k) (timeouts s) \<and>
      list_all (\<lambda>(i, r). repo_key r \<noteq> k) (requests s))"

text \<open>The calls of the client for one key, oldest first.\<close>

definition fetches_of :: "string \<Rightarrow> orch \<Rightarrow> ParsedRepo list" where
  "fetches_of k s = filter (\<lambda>r. repo_key r = k) (fetch_log s)"

text \<open>Every \<open>Render\<close> of a list of events keeps the key \<open>k\<close> selected.\<close>

definition keeps_selected :: "string \<Rightarrow> event list \<Rightarrow> bool" where
  "keeps_selected k evs =
     list_all (\<lambda>e. case e of Render rs \<Rightarrow> k \<in> set (map repo_key rs) | _ \<Rightarrow> True) evs"

section \<open>Fetch orchestrator of IssuesChart\<close>

text \<open>
  \<^verbatim>\<open>IssuesChart\<close> has no polling. Its ref \<^verbatim>\<open>fetchedRepos\<close> is a \<^verbatim>\<open>Set\<close> of keys, here
  a list without repetitions.
\<close>

record issues_orch =
  issues_prop_repos :: "ParsedRepo list"
  issues_repoData :: "IssuesRepoData jsmap"
  fetchedRepos :: "string list"
  issues_requests :: "(nat \<times> ParsedRepo) list"
  issues_fetch_log :: "ParsedRepo list"
  issues_next_id :: nat

definition issues_fetchRepo :: "ParsedRepo \<Rightarrow> issues_orch \<Rightarrow> issues_orch" where
  "issues_fetchRepo r s =
     (let key = repo_key r in
      if key \<in> set (fetchedRepos s) then s
      else s\<lparr>fetchedRepos := fetchedRepos s @ [key],
             issues_repoData :=
               AList.update key \<lparr>repo = r, data = None, error = None, loading = True\<rparr>
                 (issues_repoData s),
             issues_requests := issues_requests s @ [(issues_next_id s, r)],
             issues_fetch_log := issues_fetch_log s @ [r],
             issues_next_id := Suc (issues_next_id s)\<rparr>)"

text \<open>The \<^verbatim>\<open>.then\<close> and \<^verbatim>\<open>.catch\<close> handlers; the latter stores \<^verbatim>\<open>err.message\<close>.\<close>

definition issues_on_fulfilled :: "ParsedRepo \<Rightarrow> WeekPoint list \<Rightarrow> issues_orch \<Rightarrow> issues_orch" where
  "issues_on_fulfilled r d s =
     s\<lparr>issues_repoData :=
         AList.update (repo_key r) \<lparr>repo = r, data = Some d, error = None, loading = False\<rparr>
           (issues_repoData s)\<rparr>"

definition issues_on_rejected :: "ParsedRepo \<Rightarrow> string \<Rightarrow> issues_orch \<Rightarrow> issues_orch" where
  "issues_on_rejected r message s =
     s\<lparr>issues_repoData :=
         AList.update (repo_key r) \<lparr>repo = r, data = None, error = Some message, loading = False\<rparr>
           (issues_repoData s)\<rparr>"

text \<open>
  The effect: \<^verbatim>\<open>if (!existing) fetchRepo(repo)\<close> for every selected repository, then the
  removal of the entries of the others, each with its key in \<^verbatim>\<open>fetchedRepos\<close>.
\<close>

definition issues_effect :: "ParsedRepo list \<Rightarrow> issues_orch \<Rightarrow> issues_orch" where
  "issues_effect rs s =
     (let snapshot = issues_repoData s;
          s1 = fold (\<lambda>r acc. case map_of snapshot (repo_key r) of
                                None \<Rightarrow> issues_fetchRepo r acc
                              | Some existing \<Rightarrow> acc) rs s;
          currentKeys = map repo_key rs;
          removed = filter (\<lambda>key. key \<notin> set currentKeys) (map fst (issues_repoData s1))
      in s1\<lparr>issues_prop_repos := rs,
            issues_repoData := cleanup_removed currentKeys (issues_repoData s1),
            fetchedRepos := filter (\<lambda>key. key \<notin> set removed) (fetchedRepos s1)\<rparr>)"

section \<open>Properties\<close>

subsection \<open>Splitting and joining\<close>

lemma split_not_Nil: "split c s \<noteq> []"
  by (induction s) (auto split: list.splits)

lemma split_no_separator: "c \<notin> set s \<Longrightarrow> split c s = [s]"
  by (induction s) auto

lemma split_append: "split c (p @ c # q) = split c p @ split c q"
proof (induction p)
  case Nil
  show ?case by simp
next
  case (Cons x xs)
  obtain w ws where w: "split c xs = w # ws"
    using split_not_Nil [of c xs] by (cases "split c xs") auto
  show ?case using Cons w by simp
qed

lemma split_piece: "c \<notin> set x \<Longrightarrow> split c (x @ c # r) = x # split c r"
  by (simp add: split_append split_no_separator)

lemma join_Cons: "join c (x # xs) = (if xs = [] then x else x @ c # join c xs)"
  by (cases xs) auto

lemma split_join:
  "xs \<noteq> [] \<Longrightarrow> \<forall>x \<in> set xs. c \<notin> set x \<Longrightarrow> split c (join c xs) = xs"
proof (induction xs rule: join.induct)
  case (1 c)
  then show ?case by simp
next
  case (2 c x)
  then show ?case by (simp add: split_no_separator)
next
  case (3 c x y ys)
  then show ?case by (simp add: split_piece)
qed

lemma parse_segment_key: "url_safe r \<Longrightarrow> parse_segment (repo_key r) = Some r"
  by (simp add: parse_segment_def repo_key_def url_safe_def split_piece split_no_separator)

lemma repo_key_no_comma: "url_safe r \<Longrightarrow> CHR '','' \<notin> set (repo_key r)"
  by (simp add: repo_key_def url_safe_def)

lemma join_keys_not_Nil: "rs \<noteq> [] \<Longrightarrow> join c (map repo_key rs) \<noteq> []"
  by (cases rs) (auto simp: join_Cons repo_key_def)

lemma map_filter_keys:
  "\<forall>r \<in> set rs. url_safe r \<Longrightarrow> List.map_filter parse_segment (map repo_key rs) = rs"
  by (induction rs) (auto simp: parse_segment_key)

lemma getReposFromUrl_split:
  "getReposFromUrl (Some p) = List.map_filter parse_segment (split CHR '','' p)"
  by (simp add: getReposFromUrl_def parse_segment_def)

lemma map_filter_append:
  "List.map_filter f (xs @ ys) = List.map_filter f xs @ List.map_filter f ys"
  by (simp add: List.map_filter_def)

subsection \<open>Adding to the selection\<close>


text \<open>
  A selection without case-insensitive duplicates stays so under \<^const>\<open>handleAdd\<close>,
  whatever the parser returns.
\<close>

lemma handleAdd_keeps_ci_distinct:
  assumes "distinct (map (\<lambda>r. (toLowerCase (owner r), toLowerCase (name r))) (repos s))"
  shows "distinct (map (\<lambda>r. (toLowerCase (owner r), toLowerCase (name r))) (repos (handleAdd p s)))"
  using assms
  by (auto simp: handleAdd_def handleAddRepo_def isDuplicate_def list_ex_iff Let_def
           split: option.splits)



subsection \<open>The URL round trip\<close>

text \<open>
  Claim C8, as stated, fails: a name that holds a comma is cut at the comma by the
  decoder, and the rest of it is dropped as a segment without a name.
\<close>

theorem url_round_trip_counterexample:
  "getReposFromUrl (updateUrl [\<lparr>owner = ''a'', name = ''b,c''\<rparr>]) \<noteq> [\<lparr>owner = ''a'', name = ''b,c''\<rparr>]"
  by (simp add: getReposFromUrl_def updateUrl_def repo_key_def parse_segment_def)

text \<open>
  Claim C8, amended. For every ordered list of repository references whose owners and
  names are non-empty and hold neither \<^verbatim>\<open>,\<close> nor \<^verbatim>\<open>/\<close>, encoding the list into the
  \<^verbatim>\<open>repos\<close> query parameter and decoding the parameter gives the same list, in the same
  order (the empty list is encoded by removing the parameter).
\<close>

theorem url_round_trip:
  assumes "\<forall>r \<in> set rs. url_safe r"
  shows "getReposFromUrl (updateUrl rs) = rs"
proof (cases "rs = []")
  case True
  then show ?thesis by (simp add: getReposFromUrl_def updateUrl_def)
next
  case False
  have "split CHR '','' (join CHR '','' (map repo_key rs)) = map repo_key rs"
    using False assms by (intro split_join) (auto simp: repo_key_no_comma)
  then show ?thesis
    using False assms
    by (simp add: getReposFromUrl_def updateUrl_def join_keys_not_Nil map_filter_keys)
qed

theorem url_round_trip_witness:
  "url_safe \<lparr>owner = ''vercel'', name = ''next.js''\<rparr> \<and> url_safe \<lparr>owner = ''a'', name = ''b''\<rparr> \<and>
   getReposFromUrl (updateUrl [\<lparr>owner = ''vercel'', name = ''next.js''\<rparr>, \<lparr>owner = ''a'', name = ''b''\<rparr>])
     = [\<lparr>owner = ''vercel'', name = ''next.js''\<rparr>, \<lparr>owner = ''a'', name = ''b''\<rparr>]"
  using url_round_trip [of "[\<lparr>owner = ''vercel'', name = ''next.js''\<rparr>, \<lparr>owner = ''a'', name = ''b''\<rparr>]"]
  by (simp add: url_safe_def)

subsection \<open>Decoding the URL parameter\<close>

text \<open>
  Claim C10. The decoder works segment by segment: the decoding of \<open>p,q\<close> is the decoding
  of \<open>p\<close> followed by the decoding of \<open>q\<close>, so no segment is compared with another and
  there is no duplicate check. A segment \<open>owner/name\<close> gives the reference with exactly
  these two strings (no case folding), also when more \<^verbatim>\<open>/\<close>-separated parts follow, which
  are discarded. A segment without \<^verbatim>\<open>/\<close>, with an empty owner or with an empty name
  gives nothing: the result is a plain list, with no error value. In particular
  \<^verbatim>\<open>a/b,A/B\<close> decodes to both entries, although \<^const>\<open>isDuplicate\<close> holds of the second
  against the first, so that \<^const>\<open>handleAdd\<close> would reject it.
\<close>

theorem getReposFromUrl_segmentwise:
  "getReposFromUrl (Some (p @ CHR '','' # q)) = getReposFromUrl (Some p) @ getReposFromUrl (Some q) \<and>
   (CHR '','' \<notin> set seg \<longrightarrow>
      getReposFromUrl (Some seg) = (case parse_segment seg of None \<Rightarrow> [] | Some r \<Rightarrow> [r])) \<and>
   (ow \<noteq> [] \<and> nm \<noteq> [] \<and> CHR ''/'' \<notin> set ow \<and> CHR ''/'' \<notin> set nm \<longrightarrow>
      parse_segment (ow @ CHR ''/'' # nm) = Some \<lparr>owner = ow, name = nm\<rparr> \<and>
      parse_segment (ow @ CHR ''/'' # nm @ CHR ''/'' # rest) = Some \<lparr>owner = ow, name = nm\<rparr>) \<and>
   (CHR ''/'' \<notin> set seg \<longrightarrow> parse_segment seg = None) \<and>
   parse_segment (CHR ''/'' # rest) = None \<and>
   (CHR ''/'' \<notin> set ow \<longrightarrow> parse_segment (ow @ CHR ''/'' # CHR ''/'' # rest) = None \<and>
      parse_segment (ow @ ''/'') = None) \<and>
   getReposFromUrl (Some ''a/b,A/B'') = [\<lparr>owner = ''a'', name = ''b''\<rparr>, \<lparr>owner = ''A'', name = ''B''\<rparr>] \<and>
   isDuplicate [\<lparr>owner = ''a'', name = ''b''\<rparr>] \<lparr>owner = ''A'', name = ''B''\<rparr>"
proof -
  have 1: "getReposFromUrl (Some (p @ CHR '','' # q)) = getReposFromUrl (Some p) @ getReposFromUrl (Some q)"
    by (simp only: getReposFromUrl_split split_append map_filter_append)
  have 2: "CHR '','' \<notin> set seg \<longrightarrow>
      getReposFromUrl (Some seg) = (case parse_segment seg of None \<Rightarrow> [] | Some r \<Rightarrow> [r])"
    by (simp add: getReposFromUrl_split split_no_separator split: option.splits)
  have 3: "ow \<noteq> [] \<and> nm \<noteq> [] \<and> CHR ''/'' \<notin> set ow \<and> CHR ''/'' \<notin> set nm \<longrightarrow>
      parse_segment (ow @ CHR ''/'' # nm) = Some \<lparr>owner = ow, name = nm\<rparr> \<and>
      parse_segment (ow @ CHR ''/'' # nm @ CHR ''/'' # rest) = Some \<lparr>owner = ow, name = nm\<rparr>"
    using split_not_Nil [of "CHR ''/''" rest]
    by (auto simp: parse_segment_def split_piece split_no_separator split: list.splits)
  have 4: "CHR ''/'' \<notin> set seg \<longrightarrow> parse_segment seg = None"
    by (simp add: parse_segment_def split_no_separator)
  have 5: "parse_segment (CHR ''/'' # rest) = None"
    by (simp add: parse_segment_def split: list.splits)
  have 6: "CHR ''/'' \<notin> set ow \<longrightarrow> parse_segment (ow @ CHR ''/'' # CHR ''/'' # rest) = None \<and>
      parse_segment (ow @ ''/'') = None"
    by (simp add: parse_segment_def split_piece split: list.splits)
  have 7: "getReposFromUrl (Some ''a/b,A/B'') = [\<lparr>owner = ''a'', name = ''b''\<rparr>, \<lparr>owner = ''A'', name = ''B''\<rparr>]"
    by (simp add: getReposFromUrl_def parse_segment_def)
  have 8: "isDuplicate [\<lparr>owner = ''a'', name = ''b''\<rparr>] \<lparr>owner = ''A'', name = ''B''\<rparr>"
    by (simp add: isDuplicate_def toLowerCase_def lower_char_def)
  show ?thesis using 1 2 3 4 5 6 7 8 by blast
qed

theorem getReposFromUrl_segmentwise_witness:
  "CHR '','' \<notin> set ''x/y/z'' \<and> CHR '','' \<notin> set ''nameless'' \<and>
   ''x'' \<noteq> [] \<and> ''y'' \<noteq> [] \<and> CHR ''/'' \<notin> set ''x'' \<and> CHR ''/'' \<notin> set ''y'' \<and>
   CHR ''/'' \<notin> set ''nameless'' \<and>
   getReposFromUrl (Some (''x/y/z'' @ CHR '','' # ''nameless'')) = [\<lparr>owner = ''x'', name = ''y''\<rparr>] \<and>
   getReposFromUrl (Some ''x/y/z'') = [\<lparr>owner = ''x'', name = ''y''\<rparr>] \<and>
   getReposFromUrl (Some ''nameless'') = [] \<and>
   parse_segment (''x'' @ ''/'') = None"
proof -
  have a: "CHR '','' \<notin> set ''x/y/z''" and b: "CHR '','' \<notin> set ''nameless''"
    and c: "''x'' \<noteq> [] \<and> ''y'' \<noteq> [] \<and> CHR ''/'' \<notin> set ''x'' \<and> CHR ''/'' \<notin> set ''y''"
    and d: "CHR ''/'' \<notin> set ''nameless''"
    by simp_all
  note t1 = getReposFromUrl_segmentwise [of "''x/y/z''" "''nameless''" "''nameless''" "''x''" "''y''" "''z''"]
  note t2 = getReposFromUrl_segmentwise [of "''x/y/z''" "''nameless''" "''x/y/z''" "''x''" "''y''" "''z''"]
  from t1 b d have n: "getReposFromUrl (Some ''nameless'') = []" by simp
  from t1 c have p: "parse_segment (''x'' @ CHR ''/'' # ''y'' @ CHR ''/'' # ''z'') = Some \<lparr>owner = ''x'', name = ''y''\<rparr>"
    by blast
  from t2 a p have x: "getReposFromUrl (Some ''x/y/z'') = [\<lparr>owner = ''x'', name = ''y''\<rparr>]" by simp
  from t1 have "getReposFromUrl (Some (''x/y/z'' @ CHR '','' # ''nameless''))
      = getReposFromUrl (Some ''x/y/z'') @ getReposFromUrl (Some ''nameless'')" by blast
  with n x have j: "getReposFromUrl (Some (''x/y/z'' @ CHR '','' # ''nameless'')) = [\<lparr>owner = ''x'', name = ''y''\<rparr>]"
    by simp
  from t1 c have e: "parse_segment (''x'' @ ''/'') = None" by blast
  show ?thesis using a b c d n x j e by blast
qed

subsection \<open>Rows of the merged dataset\<close>

lemma cols_set_col:
  "cols (set_col a v p) k = (if a = k then (case v of None \<Rightarrow> cols p k | Some x \<Rightarrow> Some x) else cols p k)"
  by (simp add: set_col_def split: option.splits)

lemma weekTimestamp_set_col: "weekTimestamp (set_col a v p) = weekTimestamp p"
  by (simp add: set_col_def split: option.splits)

lemma cols_fold_set_col:
  "cols (fold (\<lambda>key. set_col key (f key)) keys p) k =
     (if k \<in> set keys then (case f k of None \<Rightarrow> cols p k | Some v \<Rightarrow> Some v) else cols p k)"
  by (induction keys arbitrary: p) (auto simp: cols_set_col split: option.splits)

lemma weekTimestamp_fold_set_col:
  "weekTimestamp (fold (\<lambda>key. set_col key (f key)) keys p) = weekTimestamp p"
  by (induction keys arbitrary: p) (auto simp: weekTimestamp_set_col)

lemma cols_row:
  "cols (fold (\<lambda>key. set_col key (f key)) keys (new_point fmt wk)) k =
     (if k \<in> set keys then f k else None)"
  by (simp add: cols_fold_set_col new_point_def split: option.splits)

lemma weekTimestamp_row:
  "weekTimestamp (fold (\<lambda>key. set_col key (f key)) keys (new_point fmt wk)) = week wk"
  by (simp add: weekTimestamp_fold_set_col new_point_def)


lemma slice_last_short: "length xs \<le> n \<Longrightarrow> slice_last n xs = xs"
  by (simp add: slice_last_def)

lemma map_snd_enumerate: "map snd (enumerate n xs) = xs"
  by (simp add: enumerate_eq_zip)

lemmas chart_eval = CommitChart_chartData_def ContributorsChart_chartData_def IssuesChart_chartData_def
  base_series_def baseRepoData_def has_series_def commit_value_def contributors_value_def
  issues_value_def set_col_def new_point_def slice_last_def repo_key_def

text \<open>
  In \<^verbatim>\<open>ContributorsChart\<close> and \<^verbatim>\<open>IssuesChart\<close> a value in a repository's column is the
  value of the first point of that repository's own series whose week equals the row's
  week; \<^verbatim>\<open>IssuesChart\<close> writes zero when the series has no such point,
  \<^verbatim>\<open>ContributorsChart\<close> writes nothing.
\<close>

lemma ContributorsChart_exact_week:
  assumes "row \<in> set (ContributorsChart_chartData fmt rs rd)" and "cols row key = Some v"
  shows "\<exists>d a w. key \<in> set (map repo_key rs) \<and> map_of rd key = Some d \<and> data d = Some a \<and>
           List.find (\<lambda>w. week w = weekTimestamp row) a = Some w \<and> amount w = v"
  using assms
  by (auto simp: ContributorsChart_chartData_def cols_row weekTimestamp_row contributors_value_def
           split: if_splits option.splits)

lemma IssuesChart_exact_week:
  assumes "row \<in> set (IssuesChart_chartData fmt rs rd)" and "cols row key = Some v"
  shows "\<exists>d a. key \<in> set (map repo_key rs) \<and> map_of rd key = Some d \<and> data d = Some a \<and>
           v = (case List.find (\<lambda>w. week w = weekTimestamp row) a of None \<Rightarrow> 0 | Some w \<Rightarrow> amount w)"
proof -
  from assms(1) obtain wk where
    row: "row = fold (\<lambda>key. set_col key (issues_value rd wk key)) (map repo_key rs) (new_point fmt wk)"
    by (auto simp: IssuesChart_chartData_def)
  have ts: "weekTimestamp row = week wk"
    by (simp add: row weekTimestamp_row)
  have "cols row key = (if key \<in> set (map repo_key rs) then issues_value rd wk key else None)"
    unfolding row by (rule cols_row)
  with assms(2) have key: "key \<in> set (map repo_key rs)" and v: "issues_value rd wk key = Some v"
    by (simp_all split: if_splits)
  from v obtain d a where "map_of rd key = Some d" and "data d = Some a"
    and "v = (case List.find (\<lambda>w. week w = week wk) a of None \<Rightarrow> 0 | Some w \<Rightarrow> amount w)"
    by (auto simp: issues_value_def split: option.splits)
  with key ts show ?thesis by simp
qed

lemma IssuesChart_missing_week_zero:
  assumes "row \<in> set (IssuesChart_chartData fmt rs rd)" and "key \<in> set (map repo_key rs)"
    and "map_of rd key = Some d" and "data d = Some a"
    and "\<forall>w \<in> set a. week w \<noteq> weekTimestamp row"
  shows "cols row key = Some 0"
proof -
  have "List.find (\<lambda>w. week w = weekTimestamp row) a = None"
    using assms(5) by (simp add: find_None_iff)
  then show ?thesis using assms(1-4)
    by (auto simp: IssuesChart_chartData_def cols_row weekTimestamp_row issues_value_def)
qed

lemma ContributorsChart_missing_week_absent:
  assumes "row \<in> set (ContributorsChart_chartData fmt rs rd)" and "key \<in> set (map repo_key rs)"
    and "map_of rd key = Some d" and "data d = Some a"
    and "\<forall>w \<in> set a. week w \<noteq> weekTimestamp row"
  shows "cols row key = None"
proof -
  have "List.find (\<lambda>w. week w = weekTimestamp row) a = None"
    using assms(5) by (simp add: find_None_iff)
  then show ?thesis using assms(1-4)
    by (auto simp: ContributorsChart_chartData_def cols_row weekTimestamp_row contributors_value_def)
qed

text \<open>
  Claim C2 says that in every chart the value in a repository's column comes from the point
  of that repository's series whose week equals the row's week, not from the position.
  \<^verbatim>\<open>CommitChart\<close> reads \<^verbatim>\<open>data.activity[index]\<close>: with the base series at weeks 100 and
  200 and the second repository's series at weeks 200 and 300, the row of week 200 shows
  6, the second repository's value of week 300 (its value of week 200 is 5), and the row
  of week 100 shows 5 although that series has no point of week 100. On the same input
  \<^verbatim>\<open>ContributorsChart\<close> leaves the row of week 100 without the column and shows 5 in the
  row of week 200.
\<close>

theorem CommitChart_reads_by_position:
  "map (\<lambda>p. (weekTimestamp p, cols p ''o/b''))
     (CommitChart_chartData fmt
        [\<lparr>owner = ''o'', name = ''a''\<rparr>, \<lparr>owner = ''o'', name = ''b''\<rparr>]
        [(''o/a'', \<lparr>repo = \<lparr>owner = ''o'', name = ''a''\<rparr>,
                   data = Some [\<lparr>week = 100, amount = 1\<rparr>, \<lparr>week = 200, amount = 2\<rparr>],
                   error = None, loading = False, computing = False\<rparr>),
         (''o/b'', \<lparr>repo = \<lparr>owner = ''o'', name = ''b''\<rparr>,
                   data = Some [\<lparr>week = 200, amount = 5\<rparr>, \<lparr>week = 300, amount = 6\<rparr>],
                   error = None, loading = False, computing = False\<rparr>)])
     = [(100, Some 5), (200, Some 6)] \<and>
   map (\<lambda>p. (weekTimestamp p, cols p ''o/b''))
     (ContributorsChart_chartData fmt
        [\<lparr>owner = ''o'', name = ''a''\<rparr>, \<lparr>owner = ''o'', name = ''b''\<rparr>]
        [(''o/a'', \<lparr>repo = \<lparr>owner = ''o'', name = ''a''\<rparr>,
                   data = Some [\<lparr>week = 100, amount = 1\<rparr>, \<lparr>week = 200, amount = 2\<rparr>],
                   error = None, loading = False, computing = False\<rparr>),
         (''o/b'', \<lparr>repo = \<lparr>owner = ''o'', name = ''b''\<rparr>,
                   data = Some [\<lparr>week = 200, amount = 5\<rparr>, \<lparr>week = 300, amount = 6\<rparr>],
                   error = None, loading = False, computing = False\<rparr>)])
     = [(100, None), (200, Some 5)]"
  by (simp add: chart_eval)

text \<open>
  Claim C6 says that in the commit chart a repository with no point at the row's week has
  no column in that row. \<^verbatim>\<open>CommitChart\<close> decides by position: with the base series at
  weeks 100 and 200 and a second repository whose only point is at week 200, the row of
  week 100 has the column (value 5) although the series has no point of week 100, and
  the row of week 200 lacks it although the series has one.
\<close>

theorem CommitChart_missing_week_column:
  "map (\<lambda>p. (weekTimestamp p, cols p ''o/b''))
     (CommitChart_chartData fmt
        [\<lparr>owner = ''o'', name = ''a''\<rparr>, \<lparr>owner = ''o'', name = ''b''\<rparr>]
        [(''o/a'', \<lparr>repo = \<lparr>owner = ''o'', name = ''a''\<rparr>,
                   data = Some [\<lparr>week = 100, amount = 1\<rparr>, \<lparr>week = 200, amount = 2\<rparr>],
                   error = None, loading = False, computing = False\<rparr>),
         (''o/b'', \<lparr>repo = \<lparr>owner = ''o'', name = ''b''\<rparr>,
                   data = Some [\<lparr>week = 200, amount = 5\<rparr>],
                   error = None, loading = False, computing = False\<rparr>)])
     = [(100, Some 5), (200, None)] \<and>
   List.find (\<lambda>w. week w = 100) [\<lparr>week = 200, amount = 5\<rparr>] = None \<and>
   List.find (\<lambda>w. week w = 200) [\<lparr>week = 200, amount = 5\<rparr>] = Some \<lparr>week = 200, amount = 5\<rparr>"
  by (simp add: chart_eval)

subsection \<open>The time axis\<close>



text \<open>
  \<^verbatim>\<open>CommitChart\<close> passes on whatever bound the stored series have: if every series in
  the state has at most \<open>n\<close> entries, so has the chart.
\<close>

lemma base_series_stored:
  "base_series rd = [] \<or> (\<exists>d \<in> snd ` set rd. data d = Some (base_series rd))"
  by (auto simp: base_series_def baseRepoData_def find_Some_iff split: option.splits)

lemma CommitChart_rows_bounded:
  assumes "\<forall>d \<in> snd ` set rd. \<forall>a. data d = Some a \<longrightarrow> length a \<le> n"
  shows "length (CommitChart_chartData fmt rs rd) \<le> n"
proof -
  have "length (CommitChart_chartData fmt rs rd) = length (base_series rd)"
    by (simp add: CommitChart_chartData_def)
  then show ?thesis using assms base_series_stored [of rd] by auto
qed

subsection \<open>The base series\<close>

lemma first_ready_Cons_other:
  assumes "k \<notin> repo_key ` set rs"
  shows "first_ready rs ((k, d) # rd) = first_ready rs rd"
  unfolding first_ready_def using assms by (intro find_cong) auto

lemma base_first_ready:
  assumes "map fst rd = map repo_key rs" and "distinct (map fst rd)"
  shows "baseRepoData rd = (case first_ready rs rd of None \<Rightarrow> None | Some r \<Rightarrow> map_of rd (repo_key r))"
  using assms
proof (induction rd arbitrary: rs)
  case Nil
  then show ?case by (simp add: baseRepoData_def first_ready_def)
next
  case (Cons e rd)
  obtain k d where e: "e = (k, d)" by (cases e)
  from Cons.prems(1) e obtain r rs' where rs: "rs = r # rs'" and k: "k = repo_key r"
    and tl: "map fst rd = map repo_key rs'" by (cases rs) auto
  from Cons.prems(2) e have notin: "k \<notin> set (map fst rd)" and dist: "distinct (map fst rd)"
    by simp_all
  have notin': "k \<notin> repo_key ` set rs'"
    using notin unfolding tl by simp
  have IH: "baseRepoData rd = (case first_ready rs' rd of None \<Rightarrow> None | Some r \<Rightarrow> map_of rd (repo_key r))"
    using Cons.IH [OF tl dist] .
  show ?case
  proof (cases "has_series d")
    case True
    then show ?thesis
      by (simp add: e rs k baseRepoData_def first_ready_def)
  next
    case False
    have fr: "first_ready rs (e # rd) = first_ready rs' rd"
      using False first_ready_Cons_other [OF notin', of d rd]
      by (simp add: e rs k first_ready_def)
    have "baseRepoData (e # rd) = baseRepoData rd"
      using False by (simp add: e baseRepoData_def)
    moreover have "(case first_ready rs' rd of None \<Rightarrow> None | Some r \<Rightarrow> map_of (e # rd) (repo_key r))
        = (case first_ready rs' rd of None \<Rightarrow> None | Some r \<Rightarrow> map_of rd (repo_key r))"
    proof (cases "first_ready rs' rd")
      case None
      then show ?thesis by simp
    next
      case (Some r')
      then have "r' \<in> set rs'"
        by (auto simp: first_ready_def find_Some_iff)
      with notin' have "repo_key r' \<noteq> k" by auto
      with Some show ?thesis by (simp add: e)
    qed
    ultimately show ?thesis using IH fr by simp
  qed
qed

lemma filter_enumerate_above:
  "m < n \<Longrightarrow> filter (\<lambda>(j, _). j \<noteq> m) (enumerate n xs) = enumerate n xs"
  by (induction xs arbitrary: n) auto

lemma remove_index_enumerate:
  "map snd (filter (\<lambda>(j, _). j \<noteq> n + i) (enumerate n xs)) = take i xs @ drop (Suc i) xs"
proof (induction xs arbitrary: n i)
  case Nil
  show ?case by simp
next
  case (Cons x xs)
  show ?case
  proof (cases i)
    case 0
    have "map snd (enumerate (Suc n) xs) = xs" by (rule map_snd_enumerate)
    with 0 show ?thesis by (simp add: filter_enumerate_above)
  next
    case (Suc i')
    then show ?thesis using Cons.IH [of "Suc n" i'] by simp
  qed
qed

lemma handleRemoveRepo_take_drop: "handleRemoveRepo i rs = take i rs @ drop (Suc i) rs"
  using remove_index_enumerate [of 0 i rs] by (simp add: handleRemoveRepo_def)

lemma filter_remaining:
  "distinct (a @ b # c) \<Longrightarrow> filter (\<lambda>k. k \<in> set (a @ c)) (a @ b # c) = a @ c"
  by (auto simp: filter_id_conv)

lemma filter_take_drop:
  assumes "distinct xs"
  shows "filter (\<lambda>k. k \<in> set (take i xs @ drop (Suc i) xs)) xs = take i xs @ drop (Suc i) xs"
proof (cases "i < length xs")
  case True
  then have xs: "xs = take i xs @ xs ! i # drop (Suc i) xs"
    by (rule id_take_nth_drop)
  have "distinct (take i xs @ xs ! i # drop (Suc i) xs)"
    using assms xs by simp
  from filter_remaining [OF this] xs show ?thesis by simp
next
  case False
  then show ?thesis by (simp add: filter_id_conv)
qed

lemma map_fst_cleanup_removed:
  "map fst (cleanup_removed ks m) = filter (\<lambda>k. k \<in> set ks) (map fst m)"
  by (induction m) (auto simp: cleanup_removed_def)

lemma map_of_cleanup_removed:
  "k \<in> set ks \<Longrightarrow> map_of (cleanup_removed ks m) k = map_of m k"
  by (induction m) (auto simp: cleanup_removed_def)

lemma distinct_cleanup_removed:
  "distinct (map fst m) \<Longrightarrow> distinct (map fst (cleanup_removed ks m))"
  by (simp add: map_fst_cleanup_removed)

lemma binding_after_remove:
  assumes "map fst rd = map repo_key rs" and "distinct (map fst rd)"
  shows "map fst (cleanup_removed (map repo_key (handleRemoveRepo i rs)) rd)
           = map repo_key (handleRemoveRepo i rs)"
  using assms filter_take_drop [of "map repo_key rs" i]
  by (simp add: map_fst_cleanup_removed handleRemoveRepo_take_drop take_map drop_map)

lemma first_ready_cleanup_removed:
  "first_ready rs (cleanup_removed (map repo_key rs) rd) = first_ready rs rd"
  unfolding first_ready_def by (intro find_cong) (auto simp: map_of_cleanup_removed)

text \<open>
  Claim C5, as stated, fails: the base is searched in the state map, not in the selection.
  With the selection \<^verbatim>\<open>[o/b]\<close>, \<^verbatim>\<open>o/b\<close> still loading and an entry of \<^verbatim>\<open>o/a\<close> with a
  series in the map, no selected repository is ready, yet the dataset has a row.
\<close>

theorem base_not_selected_counterexample:
  "first_ready [\<lparr>owner = ''o'', name = ''b''\<rparr>]
     [(''o/b'', \<lparr>repo = \<lparr>owner = ''o'', name = ''b''\<rparr>, data = None, error = None,
                 loading = True, computing = False\<rparr>),
      (''o/a'', \<lparr>repo = \<lparr>owner = ''o'', name = ''a''\<rparr>, data = Some [\<lparr>week = 100, amount = 1\<rparr>],
                 error = None, loading = False, computing = False\<rparr>)] = None \<and>
   map weekTimestamp (CommitChart_chartData (\<lambda>_. [])
     [\<lparr>owner = ''o'', name = ''b''\<rparr>]
     [(''o/b'', \<lparr>repo = \<lparr>owner = ''o'', name = ''b''\<rparr>, data = None, error = None,
                 loading = True, computing = False\<rparr>),
      (''o/a'', \<lparr>repo = \<lparr>owner = ''o'', name = ''a''\<rparr>, data = Some [\<lparr>week = 100, amount = 1\<rparr>],
                 error = None, loading = False, computing = False\<rparr>)]) = [100]"
  by (simp add: chart_eval first_ready_def)

text \<open>
  Claim C5, amended. The base is the first entry of the state map, in the map's insertion
  order, that has a non-empty series. Whenever the keys of the map are the keys of the
  selection, in selection order and without repetition, the base is the entry of the first
  selected repository that has a non-empty series; there is no base, and the dataset is
  empty, when no selected repository has one; and after a repository is removed from the
  selection and the effect has deleted its entry, the base is the entry of the first
  remaining repository that has a non-empty series, if any.
\<close>

theorem base_is_first_ready_selected:
  assumes "map fst rd = map repo_key rs" and "distinct (map fst rd)"
  shows "baseRepoData rd = (case first_ready rs rd of None \<Rightarrow> None | Some r \<Rightarrow> map_of rd (repo_key r)) \<and>
         (first_ready rs rd = None \<longrightarrow> base_series rd = []) \<and>
         baseRepoData (cleanup_removed (map repo_key (handleRemoveRepo i rs)) rd)
           = (case first_ready (handleRemoveRepo i rs) rd of
                None \<Rightarrow> None
              | Some r \<Rightarrow> map_of rd (repo_key r))"
proof -
  let ?rs' = "handleRemoveRepo i rs"
  let ?rd' = "cleanup_removed (map repo_key ?rs') rd"
  have 1: "baseRepoData rd = (case first_ready rs rd of None \<Rightarrow> None | Some r \<Rightarrow> map_of rd (repo_key r))"
    using assms by (rule base_first_ready)
  have 2: "first_ready rs rd = None \<longrightarrow> base_series rd = []"
    using 1 by (simp add: base_series_def)
  have "baseRepoData ?rd' = (case first_ready ?rs' ?rd' of None \<Rightarrow> None | Some r \<Rightarrow> map_of ?rd' (repo_key r))"
    using binding_after_remove [OF assms] distinct_cleanup_removed [OF assms(2)]
    by (rule base_first_ready)
  also have "\<dots> = (case first_ready ?rs' rd of None \<Rightarrow> None | Some r \<Rightarrow> map_of ?rd' (repo_key r))"
    by (simp only: first_ready_cleanup_removed)
  also have "\<dots> = (case first_ready ?rs' rd of None \<Rightarrow> None | Some r \<Rightarrow> map_of rd (repo_key r))"
  proof (cases "first_ready ?rs' rd")
    case None
    then show ?thesis by simp
  next
    case (Some r)
    then have "r \<in> set ?rs'" by (auto simp: first_ready_def find_Some_iff)
    then show ?thesis using Some by (simp add: map_of_cleanup_removed)
  qed
  finally show ?thesis using 1 2 by blast
qed

theorem base_is_first_ready_selected_witness:
  "map fst [(''o/a'', \<lparr>repo = \<lparr>owner = ''o'', name = ''a''\<rparr>, data = Some [\<lparr>week = 100, amount = 1\<rparr>],
                      error = None, loading = False\<rparr>),
            (''o/b'', \<lparr>repo = \<lparr>owner = ''o'', name = ''b''\<rparr>, data = Some [\<lparr>week = 200, amount = 5\<rparr>],
                      error = None, loading = False\<rparr>)]
     = map repo_key [\<lparr>owner = ''o'', name = ''a''\<rparr>, \<lparr>owner = ''o'', name = ''b''\<rparr>] \<and>
   distinct [''o/a'', ''o/b''] \<and>
   baseRepoData [(''o/a'', \<lparr>repo = \<lparr>owner = ''o'', name = ''a''\<rparr>, data = Some [\<lparr>week = 100, amount = 1\<rparr>],
                      error = None, loading = False\<rparr>),
            (''o/b'', \<lparr>repo = \<lparr>owner = ''o'', name = ''b''\<rparr>, data = Some [\<lparr>week = 200, amount = 5\<rparr>],
                      error = None, loading = False\<rparr>)]
     = Some \<lparr>repo = \<lparr>owner = ''o'', name = ''a''\<rparr>, data = Some [\<lparr>week = 100, amount = 1\<rparr>],
                      error = None, loading = False\<rparr> \<and>
   baseRepoData (cleanup_removed
       (map repo_key (handleRemoveRepo 0 [\<lparr>owner = ''o'', name = ''a''\<rparr>, \<lparr>owner = ''o'', name = ''b''\<rparr>]))
       [(''o/a'', \<lparr>repo = \<lparr>owner = ''o'', name = ''a''\<rparr>, data = Some [\<lparr>week = 100, amount = 1\<rparr>],
                      error = None, loading = False\<rparr>),
        (''o/b'', \<lparr>repo = \<lparr>owner = ''o'', name = ''b''\<rparr>, data = Some [\<lparr>week = 200, amount = 5\<rparr>],
                      error = None, loading = False\<rparr>)])
     = Some \<lparr>repo = \<lparr>owner = ''o'', name = ''b''\<rparr>, data = Some [\<lparr>week = 200, amount = 5\<rparr>],
                      error = None, loading = False\<rparr>"
  using base_is_first_ready_selected [of
      "[(''o/a'', \<lparr>repo = \<lparr>owner = ''o'', name = ''a''\<rparr>, data = Some [\<lparr>week = 100, amount = 1\<rparr>],
                      error = None, loading = False\<rparr>),
        (''o/b'', \<lparr>repo = \<lparr>owner = ''o'', name = ''b''\<rparr>, data = Some [\<lparr>week = 200, amount = 5\<rparr>],
                      error = None, loading = False\<rparr>)]"
      "[\<lparr>owner = ''o'', name = ''a''\<rparr>, \<lparr>owner = ''o'', name = ''b''\<rparr>]" 0]
  by (simp add: repo_key_def first_ready_def has_series_def handleRemoveRepo_def)

subsection \<open>Running the orchestrator\<close>

lemmas orch_eval = init_def effect_def effect_cleanup_def fetchRepo_def on_fulfilled_def
  on_rejected_def should_skip_def cleanup_removed_def clearTimeout_def repo_key_def Let_def

lemma run_Nil: "run P [] s = s"
  by (simp add: run_def)

lemma run_Cons: "run P (e # es) s = run P es (step P e s)"
  by (simp add: run_def)

lemma run_append: "run P (xs @ ys) s = run P ys (run P xs s)"
  by (simp add: run_def)

subsection \<open>The reconciliation pass\<close>

text \<open>
  After every pass the keys of the state map are the keys of the selection, the ref
  \<^verbatim>\<open>pollTimers\<close> is empty, and every timeout it referred to is cancelled.
\<close>

lemma repoData_fetchRepo_keys:
  "fst ` set (repoData (fetchRepo r b s)) = insert (repo_key r) (fst ` set (repoData s))"
  by (simp add: fetchRepo_def Let_def AList.dom_update)

lemma keys_effect_loop:
  "fst ` set (repoData (fold (\<lambda>r acc. if should_skip snap r then acc else fetchRepo r False acc) rs s))
     = fst ` set (repoData s) \<union> repo_key ` {r \<in> set rs. \<not> should_skip snap r}"
  by (induction rs arbitrary: s) (auto simp: repoData_fetchRepo_keys)

lemma should_skip_key: "should_skip snap r \<Longrightarrow> repo_key r \<in> fst ` set snap"
  by (auto simp: should_skip_def split: option.splits dest: map_of_SomeD intro: rev_image_eqI)

lemma keys_after_render:
  "set (map fst (repoData (step P (Render rs) s))) = repo_key ` set rs"
proof -
  let ?loop = "fold (\<lambda>r acc. if should_skip (repoData s) r then acc else fetchRepo r False acc) rs
                 (effect_cleanup s)"
  have "set (map fst (repoData (step P (Render rs) s)))
          = fst ` set (repoData ?loop) \<inter> repo_key ` set rs"
    by (auto simp: effect_def Let_def map_fst_cleanup_removed effect_cleanup_def)
  also have "fst ` set (repoData ?loop)
          = fst ` set (repoData s) \<union> repo_key ` {r \<in> set rs. \<not> should_skip (repoData s) r}"
    by (simp add: keys_effect_loop effect_cleanup_def)
  finally show ?thesis
    using should_skip_key [of "repoData s"] by auto
qed

lemma pollTimers_fetchRepo: "pollTimers (fetchRepo r b s) = pollTimers s"
  by (simp add: fetchRepo_def Let_def)

lemma timeouts_fetchRepo: "timeouts (fetchRepo r b s) = timeouts s"
  by (simp add: fetchRepo_def Let_def)

lemma pollTimers_effect_loop:
  "pollTimers (fold (\<lambda>r acc. if should_skip snap r then acc else fetchRepo r False acc) rs s) = pollTimers s"
  by (induction rs arbitrary: s) (auto simp: pollTimers_fetchRepo)

lemma timeouts_effect_loop:
  "timeouts (fold (\<lambda>r acc. if should_skip snap r then acc else fetchRepo r False acc) rs s) = timeouts s"
  by (induction rs arbitrary: s) (auto simp: timeouts_fetchRepo)

lemma timers_after_render:
  "pollTimers (step P (Render rs) s) = [] \<and>
   timeouts (step P (Render rs) s) = filter (\<lambda>(t, _, _). t \<notin> set (map snd (pollTimers s))) (timeouts s)"
  by (simp add: effect_def Let_def pollTimers_effect_loop timeouts_effect_loop effect_cleanup_def
      cleanup_removed_def)

lemma fetch_log_fetchRepo: "fetch_log (fetchRepo r b s) = fetch_log s @ [r]"
  by (simp add: fetchRepo_def Let_def)

lemma fetch_log_effect_loop:
  "fetch_log (fold (\<lambda>r acc. if should_skip snap r then acc else fetchRepo r False acc) rs s)
     = fetch_log s @ filter (\<lambda>r. \<not> should_skip snap r) rs"
  by (induction rs arbitrary: s) (auto simp: fetch_log_fetchRepo)

lemma fetch_log_effect:
  "fetch_log (effect rs s) = fetch_log s @ filter (\<lambda>r. \<not> should_skip (repoData s) r) rs"
  by (simp add: effect_def Let_def fetch_log_effect_loop)

lemma should_skip_iff:
  "should_skip snap r \<longleftrightarrow>
     (\<exists>e. map_of snap (repo_key r) = Some e \<and> (data e \<noteq> None \<or> loading e \<or> computing e))"
  by (auto simp: should_skip_def split: option.splits)

lemma issues_effect_loop:
  "\<exists>news. issues_fetch_log (fold (\<lambda>r acc. case map_of snap (repo_key r) of
                                            None \<Rightarrow> issues_fetchRepo r acc
                                          | Some existing \<Rightarrow> acc) rs t)
             = issues_fetch_log t @ news \<and>
          distinct (map repo_key news) \<and>
          (\<forall>r \<in> set news. r \<in> set rs \<and> map_of snap (repo_key r) = None \<and>
                            repo_key r \<notin> set (fetchedRepos t))"
proof (induction rs arbitrary: t)
  case Nil
  show ?case by simp
next
  case (Cons r rs)
  let ?body = "\<lambda>r acc. case map_of snap (repo_key r) of
                          None \<Rightarrow> issues_fetchRepo r acc
                        | Some existing \<Rightarrow> acc"
  show ?case
  proof (cases "map_of snap (repo_key r) = None \<and> repo_key r \<notin> set (fetchedRepos t)")
    case True
    let ?t1 = "issues_fetchRepo r t"
    from True have log1: "issues_fetch_log ?t1 = issues_fetch_log t @ [r]"
      and fetched1: "fetchedRepos ?t1 = fetchedRepos t @ [repo_key r]"
      by (simp_all add: issues_fetchRepo_def Let_def)
    from Cons.IH [of ?t1] obtain news where
      n1: "issues_fetch_log (fold ?body rs ?t1) = issues_fetch_log ?t1 @ news"
      and n2: "distinct (map repo_key news)"
      and n3: "\<forall>r' \<in> set news. r' \<in> set rs \<and> map_of snap (repo_key r') = None \<and>
                 repo_key r' \<notin> set (fetchedRepos ?t1)"
      by blast
    have "issues_fetch_log (fold ?body (r # rs) t) = issues_fetch_log t @ (r # news)"
      using True n1 log1 by simp
    moreover have "distinct (map repo_key (r # news))"
      using n2 n3 fetched1 by auto
    moreover have "\<forall>r' \<in> set (r # news). r' \<in> set (r # rs) \<and> map_of snap (repo_key r') = None \<and>
                 repo_key r' \<notin> set (fetchedRepos t)"
      using True n3 fetched1 by auto
    ultimately show ?thesis by blast
  next
    case False
    then have same: "?body r t = t"
      by (auto simp: issues_fetchRepo_def Let_def split: option.splits)
    from Cons.IH [of t] obtain news where
      "issues_fetch_log (fold ?body rs t) = issues_fetch_log t @ news"
      "distinct (map repo_key news)"
      "\<forall>r' \<in> set news. r' \<in> set rs \<and> map_of snap (repo_key r') = None \<and>
                 repo_key r' \<notin> set (fetchedRepos t)"
      by blast
    then show ?thesis using same by (intro exI [of _ news]) auto
  qed
qed

lemma issues_fetch_log_effect:
  "issues_fetch_log (issues_effect rs t)
     = issues_fetch_log (fold (\<lambda>r acc. case map_of (issues_repoData t) (repo_key r) of
                                            None \<Rightarrow> issues_fetchRepo r acc
                                          | Some existing \<Rightarrow> acc) rs t)"
  by (simp add: issues_effect_def Let_def)

text \<open>
  Claim C9, as stated, fails in its last part for the commit and contributor charts: an
  entry that failed (no data, not loading, not computing) is present in the tracked
  state, and the next pass in which its repository is still selected fetches it again.
\<close>

theorem failed_repo_refetched_counterexample:
  "map_of (repoData (run 5000 [Render [\<lparr>owner = ''o'', name = ''a''\<rparr>],
                               Settle 1 (Rejected (OtherError ''rate limit''))] init)) ''o/a''
     = Some \<lparr>repo = \<lparr>owner = ''o'', name = ''a''\<rparr>, data = None, error = Some ''rate limit'',
              loading = False, computing = False\<rparr> \<and>
   fetch_log (run 5000 [Render [\<lparr>owner = ''o'', name = ''a''\<rparr>],
                        Settle 1 (Rejected (OtherError ''rate limit'')),
                        Render [\<lparr>owner = ''o'', name = ''a''\<rparr>, \<lparr>owner = ''o'', name = ''b''\<rparr>]] init)
     = [\<lparr>owner = ''o'', name = ''a''\<rparr>, \<lparr>owner = ''o'', name = ''a''\<rparr>, \<lparr>owner = ''o'', name = ''b''\<rparr>]"
proof -
  let ?a = "\<lparr>owner = ''o'', name = ''a''\<rparr>"
  let ?b = "\<lparr>owner = ''o'', name = ''b''\<rparr>"
  let ?s1 = "\<lparr>prop_repos = [?a],
    repoData = [(''o/a'', \<lparr>repo = ?a, data = None, error = None, loading = True, computing = False\<rparr>)],
    pollTimers = [], timeouts = [], requests = [(1, ?a)], fetch_log = [?a], next_id = 2, now = 0\<rparr>"
  let ?s2 = "\<lparr>prop_repos = [?a],
    repoData = [(''o/a'', \<lparr>repo = ?a, data = None, error = Some ''rate limit'', loading = False,
                           computing = False\<rparr>)],
    pollTimers = [], timeouts = [], requests = [], fetch_log = [?a], next_id = 2, now = 0\<rparr>"
  have 1: "step 5000 (Render [?a]) init = ?s1" by (simp add: orch_eval)
  have 2: "step 5000 (Settle 1 (Rejected (OtherError ''rate limit''))) ?s1 = ?s2" by (simp add: orch_eval)
  have 3: "fetch_log (step 5000 (Render [?a, ?b]) ?s2) = [?a, ?a, ?b]" by (simp add: orch_eval)
  have r2: "run 5000 [Render [?a], Settle 1 (Rejected (OtherError ''rate limit''))] init = ?s2"
    by (simp only: run_Cons run_Nil 1 2)
  have r3: "fetch_log (run 5000 [Render [?a], Settle 1 (Rejected (OtherError ''rate limit'')),
                                 Render [?a, ?b]] init) = [?a, ?a, ?b]"
    by (simp only: run_Cons run_Nil 1 2 3)
  show ?thesis unfolding r2 r3 by simp
qed

text \<open>
  Claim C9, amended. A reconciliation pass of the commit or contributor chart calls the
  client, in selection order, for exactly the selected repositories that the guard does
  not skip, and the guard skips a repository exactly when the state of the render has an
  entry for it that has data, is loading or is computing: a repository that is Loading,
  Computing or Ready is never fetched again by a pass, one that is absent or Failed is.
  A pass of the issues chart calls the client only for selected repositories that have no
  entry in the state of the render and whose key is not in \<^verbatim>\<open>fetchedRepos\<close>, and at most
  once for each key.
\<close>

theorem reconciliation_fetches:
  "fetch_log (step P (Render rs) s) = fetch_log s @ filter (\<lambda>r. \<not> should_skip (repoData s) r) rs \<and>
   (should_skip (repoData s) r \<longleftrightarrow>
      (\<exists>e. map_of (repoData s) (repo_key r) = Some e \<and> (data e \<noteq> None \<or> loading e \<or> computing e))) \<and>
   (\<exists>news. issues_fetch_log (issues_effect rs t) = issues_fetch_log t @ news \<and>
            distinct (map repo_key news) \<and>
            (\<forall>r \<in> set news. r \<in> set rs \<and> map_of (issues_repoData t) (repo_key r) = None \<and>
                              repo_key r \<notin> set (fetchedRepos t)))"
proof -
  have "fetch_log (step P (Render rs) s) = fetch_log s @ filter (\<lambda>r. \<not> should_skip (repoData s) r) rs"
    by (simp add: fetch_log_effect effect_cleanup_def)
  moreover note should_skip_iff [of "repoData s" r]
  moreover note issues_effect_loop [of "issues_repoData t" rs t, folded issues_fetch_log_effect]
  ultimately show ?thesis by blast
qed

theorem reconciliation_fetches_witness:
  "should_skip (repoData (step 5000 (Render [\<lparr>owner = ''o'', name = ''a''\<rparr>]) init))
     \<lparr>owner = ''o'', name = ''a''\<rparr> \<and>
   fetch_log (step 5000 (Render [\<lparr>owner = ''o'', name = ''a''\<rparr>, \<lparr>owner = ''o'', name = ''b''\<rparr>])
                (step 5000 (Render [\<lparr>owner = ''o'', name = ''a''\<rparr>]) init))
     = [\<lparr>owner = ''o'', name = ''a''\<rparr>, \<lparr>owner = ''o'', name = ''b''\<rparr>] \<and>
   issues_fetch_log (issues_effect [\<lparr>owner = ''o'', name = ''a''\<rparr>, \<lparr>owner = ''o'', name = ''b''\<rparr>]
       \<lparr>issues_prop_repos = [\<lparr>owner = ''o'', name = ''a''\<rparr>],
        issues_repoData = [(''o/a'', \<lparr>repo = \<lparr>owner = ''o'', name = ''a''\<rparr>, data = None,
                                     error = Some ''rate limit'', loading = False\<rparr>)],
        fetchedRepos = [''o/a''], issues_requests = [],
        issues_fetch_log = [\<lparr>owner = ''o'', name = ''a''\<rparr>], issues_next_id = 2\<rparr>)
     = [\<lparr>owner = ''o'', name = ''a''\<rparr>, \<lparr>owner = ''o'', name = ''b''\<rparr>]"
proof -
  let ?a = "\<lparr>owner = ''o'', name = ''a''\<rparr>"
  let ?b = "\<lparr>owner = ''o'', name = ''b''\<rparr>"
  let ?s1 = "\<lparr>prop_repos = [?a],
    repoData = [(''o/a'', \<lparr>repo = ?a, data = None, error = None, loading = True, computing = False\<rparr>)],
    pollTimers = [], timeouts = [], requests = [(1, ?a)], fetch_log = [?a], next_id = 2, now = 0\<rparr>"
  let ?t = "\<lparr>issues_prop_repos = [?a],
        issues_repoData = [(''o/a'', \<lparr>repo = ?a, data = None, error = Some ''rate limit'', loading = False\<rparr>)],
        fetchedRepos = [''o/a''], issues_requests = [],
        issues_fetch_log = [?a], issues_next_id = 2\<rparr>"
  have 1: "step 5000 (Render [?a]) init = ?s1" by (simp add: orch_eval)
  note th = reconciliation_fetches [of 5000 "[?a, ?b]" ?s1 ?a ?t]
  have skip: "should_skip (repoData ?s1) ?a"
    using th by (simp add: repo_key_def)
  have notskip: "\<not> should_skip (repoData ?s1) ?b"
    by (simp add: should_skip_def repo_key_def)
  from th have "fetch_log (step 5000 (Render [?a, ?b]) ?s1)
      = fetch_log ?s1 @ filter (\<lambda>r. \<not> should_skip (repoData ?s1) r) [?a, ?b]"
    by blast
  with skip notskip have log: "fetch_log (step 5000 (Render [?a, ?b]) ?s1) = [?a, ?b]"
    by simp
  have iss: "issues_fetch_log (issues_effect [?a, ?b] ?t) = [?a, ?b]"
    by (simp add: issues_effect_def issues_fetchRepo_def Let_def repo_key_def)
  show ?thesis unfolding 1 using skip log iss by blast
qed

subsection \<open>Responses that arrive after a removal\<close>

lemma response_applied_whatever_the_selection:
  assumes "map_of (requests s) i = Some r"
  shows "map_of (repoData (step P (Settle i (Fulfilled a)) s)) (repo_key r)
           = Some \<lparr>repo = r, data = Some a, error = None, loading = False, computing = False\<rparr>"
  using assms
  by (simp add: on_fulfilled_def Let_def AList.update_conv' split: option.splits)

text \<open>
  Claim C1 says that after a repository is removed no callback is executed for it and no
  stale response is applied. The handlers of \<^verbatim>\<open>fetchRepo\<close> write to the state without
  looking at the selection. After \<^verbatim>\<open>o/a\<close> is selected and then removed, the pass has
  deleted its entry while its client call is still pending; when the call resolves, the
  entry is back although the selection is empty; when it rejects with
  \<^verbatim>\<open>StatsComputingError\<close> instead, a retry is scheduled, and when that timer fires the
  client is called again for the removed repository.
\<close>

theorem stale_response_applied_after_removal:
  "map fst (repoData (run P [Render [\<lparr>owner = ''o'', name = ''a''\<rparr>], Render []] init)) = [] \<and>
   requests (run P [Render [\<lparr>owner = ''o'', name = ''a''\<rparr>], Render []] init)
     = [(1, \<lparr>owner = ''o'', name = ''a''\<rparr>)] \<and>
   prop_repos (run P [Render [\<lparr>owner = ''o'', name = ''a''\<rparr>], Render [],
                      Settle 1 (Fulfilled [\<lparr>week = 100, amount = 1\<rparr>])] init) = [] \<and>
   repoData (run P [Render [\<lparr>owner = ''o'', name = ''a''\<rparr>], Render [],
                    Settle 1 (Fulfilled [\<lparr>week = 100, amount = 1\<rparr>])] init)
     = [(''o/a'', \<lparr>repo = \<lparr>owner = ''o'', name = ''a''\<rparr>, data = Some [\<lparr>week = 100, amount = 1\<rparr>],
                   error = None, loading = False, computing = False\<rparr>)] \<and>
   timeouts (run P [Render [\<lparr>owner = ''o'', name = ''a''\<rparr>], Render [],
                    Settle 1 (Rejected StatsComputingError)] init)
     = [(2, P, \<lparr>owner = ''o'', name = ''a''\<rparr>)] \<and>
   fetch_log (run P [Render [\<lparr>owner = ''o'', name = ''a''\<rparr>], Render [],
                     Settle 1 (Rejected StatsComputingError), Advance P, TimerFires 2] init)
     = [\<lparr>owner = ''o'', name = ''a''\<rparr>, \<lparr>owner = ''o'', name = ''a''\<rparr>]"
proof -
  let ?a = "\<lparr>owner = ''o'', name = ''a''\<rparr>"
  let ?s1 = "\<lparr>prop_repos = [?a],
    repoData = [(''o/a'', \<lparr>repo = ?a, data = None, error = None, loading = True, computing = False\<rparr>)],
    pollTimers = [], timeouts = [], requests = [(1, ?a)], fetch_log = [?a], next_id = 2, now = 0\<rparr>"
  let ?s2 = "\<lparr>prop_repos = [], repoData = [],
    pollTimers = [], timeouts = [], requests = [(1, ?a)], fetch_log = [?a], next_id = 2, now = 0\<rparr>"
  let ?s3 = "\<lparr>prop_repos = [],
    repoData = [(''o/a'', \<lparr>repo = ?a, data = Some [\<lparr>week = 100, amount = 1\<rparr>], error = None,
                           loading = False, computing = False\<rparr>)],
    pollTimers = [], timeouts = [], requests = [], fetch_log = [?a], next_id = 2, now = 0\<rparr>"
  let ?c3 = "\<lparr>prop_repos = [],
    repoData = [(''o/a'', \<lparr>repo = ?a, data = None, error = None, loading = False, computing = True\<rparr>)],
    pollTimers = [(''o/a'', 2)], timeouts = [(2, P, ?a)], requests = [], fetch_log = [?a],
    next_id = 3, now = 0\<rparr>"
  let ?c4 = "\<lparr>prop_repos = [],
    repoData = [(''o/a'', \<lparr>repo = ?a, data = None, error = None, loading = False, computing = True\<rparr>)],
    pollTimers = [(''o/a'', 2)], timeouts = [(2, P, ?a)], requests = [], fetch_log = [?a],
    next_id = 3, now = P\<rparr>"
  have 1: "step P (Render [?a]) init = ?s1" by (simp add: orch_eval)
  have 2: "step P (Render []) ?s1 = ?s2" by (simp add: orch_eval)
  have 3: "step P (Settle 1 (Fulfilled [\<lparr>week = 100, amount = 1\<rparr>])) ?s2 = ?s3" by (simp add: orch_eval)
  have 4: "step P (Settle 1 (Rejected StatsComputingError)) ?s2 = ?c3" by (simp add: orch_eval)
  have 5: "step P (Advance P) ?c3 = ?c4" by simp
  have 6: "fetch_log (step P (TimerFires 2) ?c4) = [?a, ?a]" by (simp add: orch_eval)
  have r2: "run P [Render [?a], Render []] init = ?s2"
    by (simp only: run_Cons run_Nil 1 2)
  have r3: "run P [Render [?a], Render [], Settle 1 (Fulfilled [\<lparr>week = 100, amount = 1\<rparr>])] init = ?s3"
    by (simp only: run_Cons run_Nil 1 2 3)
  have c3: "run P [Render [?a], Render [], Settle 1 (Rejected StatsComputingError)] init = ?c3"
    by (simp only: run_Cons run_Nil 1 2 4)
  have c5: "fetch_log (run P [Render [?a], Render [], Settle 1 (Rejected StatsComputingError),
                              Advance P, TimerFires 2] init) = [?a, ?a]"
    by (simp only: run_Cons run_Nil 1 2 4 5 6)
  show ?thesis unfolding r2 r3 c3 c5 by simp
qed

text \<open>
  In the same way an entry of a repository that is not selected comes to stand in the state
  map behind the entries of the selected ones: the state in which the base of the merged
  dataset is not a selected repository.
\<close>

lemma orphan_entry_reachable:
  "prop_repos (run P [Render [\<lparr>owner = ''o'', name = ''a''\<rparr>, \<lparr>owner = ''o'', name = ''b''\<rparr>],
                      Render [\<lparr>owner = ''o'', name = ''b''\<rparr>],
                      Settle 1 (Fulfilled [\<lparr>week = 100, amount = 1\<rparr>])] init)
     = [\<lparr>owner = ''o'', name = ''b''\<rparr>] \<and>
   repoData (run P [Render [\<lparr>owner = ''o'', name = ''a''\<rparr>, \<lparr>owner = ''o'', name = ''b''\<rparr>],
                    Render [\<lparr>owner = ''o'', name = ''b''\<rparr>],
                    Settle 1 (Fulfilled [\<lparr>week = 100, amount = 1\<rparr>])] init)
     = [(''o/b'', \<lparr>repo = \<lparr>owner = ''o'', name = ''b''\<rparr>, data = None, error = None,
                   loading = True, computing = False\<rparr>),
        (''o/a'', \<lparr>repo = \<lparr>owner = ''o'', name = ''a''\<rparr>, data = Some [\<lparr>week = 100, amount = 1\<rparr>],
                   error = None, loading = False, computing = False\<rparr>)]"
proof -
  let ?a = "\<lparr>owner = ''o'', name = ''a''\<rparr>"
  let ?b = "\<lparr>owner = ''o'', name = ''b''\<rparr>"
  let ?la = "\<lparr>repo = ?a, data = None, error = None, loading = True, computing = False\<rparr>"
  let ?lb = "\<lparr>repo = ?b, data = None, error = None, loading = True, computing = False\<rparr>"
  let ?s1 = "\<lparr>prop_repos = [?a, ?b], repoData = [(''o/a'', ?la), (''o/b'', ?lb)],
    pollTimers = [], timeouts = [], requests = [(1, ?a), (2, ?b)], fetch_log = [?a, ?b],
    next_id = 3, now = 0\<rparr>"
  let ?s2 = "\<lparr>prop_repos = [?b], repoData = [(''o/b'', ?lb)],
    pollTimers = [], timeouts = [], requests = [(1, ?a), (2, ?b)], fetch_log = [?a, ?b],
    next_id = 3, now = 0\<rparr>"
  let ?s3 = "\<lparr>prop_repos = [?b],
    repoData = [(''o/b'', ?lb),
                (''o/a'', \<lparr>repo = ?a, data = Some [\<lparr>week = 100, amount = 1\<rparr>], error = None,
                           loading = False, computing = False\<rparr>)],
    pollTimers = [], timeouts = [], requests = [(2, ?b)], fetch_log = [?a, ?b],
    next_id = 3, now = 0\<rparr>"
  have 1: "step P (Render [?a, ?b]) init = ?s1" by (simp add: orch_eval)
  have 2: "step P (Render [?b]) ?s1 = ?s2" by (simp add: orch_eval)
  have 3: "step P (Settle 1 (Fulfilled [\<lparr>week = 100, amount = 1\<rparr>])) ?s2 = ?s3" by (simp add: orch_eval)
  have r: "run P [Render [?a, ?b], Render [?b], Settle 1 (Fulfilled [\<lparr>week = 100, amount = 1\<rparr>])] init = ?s3"
    by (simp only: run_Cons run_Nil 1 2 3)
  show ?thesis unfolding r by simp
qed

subsection \<open>Polling while the statistics are computed\<close>

text \<open>
  One round of polling, when nothing else happens: the rejection with
  \<^verbatim>\<open>StatsComputingError\<close> sets the entry to computing and schedules a timeout one poll
  interval ahead; when it fires the client is called again and the entry stays computing.
\<close>

lemma poll_round:
  assumes "map_of (requests s) i = Some r" and "next_id s \<notin> fst ` set (timeouts s)"
  shows "map_of (repoData (step P (Settle i (Rejected StatsComputingError)) s)) (repo_key r)
           = Some \<lparr>repo = r, data = None, error = None, loading = False, computing = True\<rparr> \<and>
         map_of (timeouts (step P (Settle i (Rejected StatsComputingError)) s)) (next_id s)
           = Some (now s + P, r) \<and>
         fetch_log (run P [Settle i (Rejected StatsComputingError), Advance P, TimerFires (next_id s)] s)
           = fetch_log s @ [r] \<and>
         map_of (repoData (run P [Settle i (Rejected StatsComputingError), Advance P,
                                  TimerFires (next_id s)] s)) (repo_key r)
           = Some \<lparr>repo = r, data = None, error = None, loading = False, computing = True\<rparr> \<and>
         (Suc (next_id s), r) \<in> set (requests (run P [Settle i (Rejected StatsComputingError), Advance P,
                                  TimerFires (next_id s)] s))"
proof -
  let ?s1 = "s\<lparr>requests := AList.delete i (requests s),
        repoData := AList.update (repo_key r)
           \<lparr>repo = r, data = None, error = None, loading = False, computing = True\<rparr> (repoData s),
        timeouts := timeouts s @ [(next_id s, now s + P, r)],
        pollTimers := AList.update (repo_key r) (next_id s) (pollTimers s),
        next_id := Suc (next_id s)\<rparr>"
  have none: "map_of (timeouts s) (next_id s) = None"
    using assms(2) by (simp add: map_of_eq_None_iff)
  have s1: "step P (Settle i (Rejected StatsComputingError)) s = ?s1"
    using assms(1) by (simp add: on_rejected_def Let_def)
  have a: "map_of (repoData ?s1) (repo_key r)
           = Some \<lparr>repo = r, data = None, error = None, loading = False, computing = True\<rparr>"
    by (simp add: AList.update_conv')
  have b: "map_of (timeouts ?s1) (next_id s) = Some (now s + P, r)"
    using none by (simp add: map_add_def)
  have s2: "step P (Advance P) ?s1 = ?s1\<lparr>now := now s + P\<rparr>"
    by simp
  have s3: "step P (TimerFires (next_id s)) (?s1\<lparr>now := now s + P\<rparr>)
        = fetchRepo r True (?s1\<lparr>now := now s + P,
            timeouts := clearTimeout (next_id s) (timeouts s @ [(next_id s, now s + P, r)])\<rparr>)"
    using none by (simp add: map_add_def)
  have c: "run P [Settle i (Rejected StatsComputingError), Advance P, TimerFires (next_id s)] s
        = fetchRepo r True (?s1\<lparr>now := now s + P,
            timeouts := clearTimeout (next_id s) (timeouts s @ [(next_id s, now s + P, r)])\<rparr>)"
    by (simp only: run_Cons run_Nil s1 s2 s3)
  show ?thesis
    unfolding c s1 using a b
    by (simp add: fetchRepo_def Let_def AList.update_conv')
qed

text \<open>
  A repository that is stuck in the computing state stays so, and the client is not called
  for it, whatever happens while it remains selected.
\<close>

lemma stuck_should_skip:
  "stuck_computing k s \<Longrightarrow> repo_key r = k \<Longrightarrow> should_skip (repoData s) r"
  by (auto simp: stuck_computing_def should_skip_def split: option.splits)

lemma map_of_update_other: "k' \<noteq> k \<Longrightarrow> map_of (AList.update k' v al) k = map_of al k"
  by (simp add: AList.update_conv')

lemma stuck_effect_loop:
  assumes "\<forall>r \<in> set rs. repo_key r = k \<longrightarrow> should_skip snap r"
  shows "map_of (repoData (fold (\<lambda>r acc. if should_skip snap r then acc else fetchRepo r False acc) rs s)) k
           = map_of (repoData s) k \<and>
         (list_all (\<lambda>(i, r). repo_key r \<noteq> k) (requests s) \<longrightarrow>
          list_all (\<lambda>(i, r). repo_key r \<noteq> k)
            (requests (fold (\<lambda>r acc. if should_skip snap r then acc else fetchRepo r False acc) rs s))) \<and>
         fetches_of k (fold (\<lambda>r acc. if should_skip snap r then acc else fetchRepo r False acc) rs s)
           = fetches_of k s"
  using assms
proof (induction rs arbitrary: s)
  case Nil
  show ?case by simp
next
  case (Cons r rs)
  show ?case
  proof (cases "should_skip snap r")
    case True
    then show ?thesis using Cons.IH [of s] Cons.prems by simp
  next
    case False
    with Cons.prems have ne: "repo_key r \<noteq> k" by auto
    have a: "map_of (repoData (fetchRepo r False s)) k = map_of (repoData s) k"
      using ne by (simp add: fetchRepo_def Let_def map_of_update_other)
    have b: "list_all (\<lambda>(i, r). repo_key r \<noteq> k) (requests s) \<longrightarrow>
             list_all (\<lambda>(i, r). repo_key r \<noteq> k) (requests (fetchRepo r False s))"
      using ne by (simp add: fetchRepo_def Let_def)
    have c: "fetches_of k (fetchRepo r False s) = fetches_of k s"
      using ne by (simp add: fetchRepo_def Let_def fetches_of_def)
    from Cons.prems have "\<forall>r \<in> set rs. repo_key r = k \<longrightarrow> should_skip snap r" by simp
    from Cons.IH [OF this, of "fetchRepo r False s"] False a b c show ?thesis by simp
  qed
qed

lemma list_all_filter: "list_all Q xs \<Longrightarrow> list_all Q (filter R xs)"
  by (induction xs) auto

lemma stuck_render:
  assumes "stuck_computing k s" and "k \<in> set (map repo_key rs)"
  shows "stuck_computing k (step P (Render rs) s) \<and> fetches_of k (step P (Render rs) s) = fetches_of k s"
proof -
  let ?c = "effect_cleanup s"
  let ?loop = "fold (\<lambda>r acc. if should_skip (repoData ?c) r then acc else fetchRepo r False acc) rs ?c"
  have c: "stuck_computing k ?c"
    using assms(1) by (simp add: stuck_computing_def effect_cleanup_def list_all_filter)
  have skip: "\<forall>r \<in> set rs. repo_key r = k \<longrightarrow> should_skip (repoData ?c) r"
    using stuck_should_skip [OF c] by blast
  note loop = stuck_effect_loop [OF skip, of ?c]
  have 1: "map_of (repoData (effect rs ?c)) k = map_of (repoData ?c) k"
    using loop assms(2) by (simp add: effect_def Let_def map_of_cleanup_removed)
  have 2: "list_all (\<lambda>(i, r). repo_key r \<noteq> k) (requests (effect rs ?c))"
    using loop c by (simp add: effect_def Let_def stuck_computing_def)
  have 3: "list_all (\<lambda>(t, due, r). repo_key r \<noteq> k) (timeouts (effect rs ?c))"
    using c by (simp add: effect_def Let_def stuck_computing_def timeouts_effect_loop list_all_filter)
  have 4: "fetches_of k (effect rs ?c) = fetches_of k s"
    using loop by (simp add: effect_def Let_def fetches_of_def effect_cleanup_def)
  from 1 2 3 4 c show ?thesis by (simp add: stuck_computing_def)
qed

lemma list_all_map_of:
  "list_all (\<lambda>(i, r). Q r) xs \<Longrightarrow> map_of xs i = Some r \<Longrightarrow> Q r"
  by (induction xs) (auto split: if_splits)

lemma list_all_map_of3:
  "list_all (\<lambda>(t, due, r). Q r) xs \<Longrightarrow> map_of xs t = Some (due, r) \<Longrightarrow> Q r"
  by (induction xs) (auto split: if_splits)

lemma stuck_settle:
  assumes "stuck_computing k s"
  shows "stuck_computing k (step P (Settle i out) s) \<and> fetches_of k (step P (Settle i out) s) = fetches_of k s"
proof (cases "map_of (requests s) i")
  case None
  then show ?thesis using assms by simp
next
  case (Some r)
  from assms have "list_all (\<lambda>(i, r). repo_key r \<noteq> k) (requests s)"
    by (simp add: stuck_computing_def)
  from list_all_map_of [OF this Some] have ne: "repo_key r \<noteq> k" .
  show ?thesis
  proof (cases out)
    case (Fulfilled a)
    then show ?thesis using assms Some ne
      by (auto simp: stuck_computing_def on_fulfilled_def Let_def map_of_update_other fetches_of_def
          AList.delete_eq clearTimeout_def list_all_filter split: option.splits)
  next
    case (Rejected err)
    then show ?thesis using assms Some ne
      by (cases err)
         (auto simp: stuck_computing_def on_rejected_def Let_def map_of_update_other fetches_of_def
          AList.delete_eq list_all_filter split: option.splits)
  qed
qed

lemma stuck_timer:
  assumes "stuck_computing k s"
  shows "stuck_computing k (step P (TimerFires t) s) \<and> fetches_of k (step P (TimerFires t) s) = fetches_of k s"
proof (cases "map_of (timeouts s) t")
  case None
  then show ?thesis using assms by simp
next
  case (Some p)
  obtain due r where p: "p = (due, r)" by (cases p)
  from assms have "list_all (\<lambda>(t, due, r). repo_key r \<noteq> k) (timeouts s)"
    by (simp add: stuck_computing_def)
  from list_all_map_of3 [OF this Some [unfolded p]] have ne: "repo_key r \<noteq> k" .
  show ?thesis using assms Some p ne
    by (auto simp: stuck_computing_def fetchRepo_def Let_def map_of_update_other fetches_of_def
        clearTimeout_def list_all_filter split: option.splits)
qed

lemma stuck_step:
  assumes "stuck_computing k s" and "keeps_selected k [e]"
  shows "stuck_computing k (step P e s) \<and> fetches_of k (step P e s) = fetches_of k s"
proof (cases e)
  case (Render rs)
  then show ?thesis using assms stuck_render [of k s rs P] by (simp add: keeps_selected_def)
next
  case (Settle i out)
  then show ?thesis using assms(1) stuck_settle by simp
next
  case (TimerFires t)
  then show ?thesis using assms(1) stuck_timer by simp
next
  case (Advance d)
  then show ?thesis using assms(1) by (simp add: stuck_computing_def fetches_of_def)
qed

lemma stuck_forever:
  assumes "stuck_computing k s" and "keeps_selected k evs"
  shows "stuck_computing k (run P evs s) \<and> fetches_of k (run P evs s) = fetches_of k s"
  using assms
proof (induction evs arbitrary: s)
  case Nil
  then show ?case by (simp add: run_Nil)
next
  case (Cons e evs)
  from Cons.prems(2) have e: "keeps_selected k [e]" and evs: "keeps_selected k evs"
    by (simp_all add: keeps_selected_def)
  from stuck_step [OF Cons.prems(1) e, of P] Cons.IH [OF _ evs, of "step P e s"]
  show ?case by (simp add: run_Cons)
qed

lemma stuck_trace:
  "run P [Render [\<lparr>owner = ''o'', name = ''a''\<rparr>], Settle 1 (Rejected StatsComputingError)] init =
     \<lparr>prop_repos = [\<lparr>owner = ''o'', name = ''a''\<rparr>],
      repoData = [(''o/a'', \<lparr>repo = \<lparr>owner = ''o'', name = ''a''\<rparr>, data = None, error = None,
                            loading = False, computing = True\<rparr>)],
      pollTimers = [(''o/a'', 2)], timeouts = [(2, P, \<lparr>owner = ''o'', name = ''a''\<rparr>)], requests = [],
      fetch_log = [\<lparr>owner = ''o'', name = ''a''\<rparr>], next_id = 3, now = 0\<rparr> \<and>
   run P [Render [\<lparr>owner = ''o'', name = ''a''\<rparr>], Settle 1 (Rejected StatsComputingError),
          Render [\<lparr>owner = ''o'', name = ''a''\<rparr>, \<lparr>owner = ''o'', name = ''b''\<rparr>]] init =
     \<lparr>prop_repos = [\<lparr>owner = ''o'', name = ''a''\<rparr>, \<lparr>owner = ''o'', name = ''b''\<rparr>],
      repoData = [(''o/a'', \<lparr>repo = \<lparr>owner = ''o'', name = ''a''\<rparr>, data = None, error = None,
                            loading = False, computing = True\<rparr>),
                  (''o/b'', \<lparr>repo = \<lparr>owner = ''o'', name = ''b''\<rparr>, data = None, error = None,
                            loading = True, computing = False\<rparr>)],
      pollTimers = [], timeouts = [], requests = [(3, \<lparr>owner = ''o'', name = ''b''\<rparr>)],
      fetch_log = [\<lparr>owner = ''o'', name = ''a''\<rparr>, \<lparr>owner = ''o'', name = ''b''\<rparr>], next_id = 4, now = 0\<rparr>"
proof -
  let ?a = "\<lparr>owner = ''o'', name = ''a''\<rparr>"
  let ?b = "\<lparr>owner = ''o'', name = ''b''\<rparr>"
  let ?s1 = "\<lparr>prop_repos = [?a],
    repoData = [(''o/a'', \<lparr>repo = ?a, data = None, error = None, loading = True, computing = False\<rparr>)],
    pollTimers = [], timeouts = [], requests = [(1, ?a)], fetch_log = [?a], next_id = 2, now = 0\<rparr>"
  let ?s2 = "\<lparr>prop_repos = [?a],
    repoData = [(''o/a'', \<lparr>repo = ?a, data = None, error = None, loading = False, computing = True\<rparr>)],
    pollTimers = [(''o/a'', 2)], timeouts = [(2, P, ?a)], requests = [], fetch_log = [?a],
    next_id = 3, now = 0\<rparr>"
  let ?s3 = "\<lparr>prop_repos = [?a, ?b],
    repoData = [(''o/a'', \<lparr>repo = ?a, data = None, error = None, loading = False, computing = True\<rparr>),
                (''o/b'', \<lparr>repo = ?b, data = None, error = None, loading = True, computing = False\<rparr>)],
    pollTimers = [], timeouts = [], requests = [(3, ?b)], fetch_log = [?a, ?b], next_id = 4, now = 0\<rparr>"
  have 1: "step P (Render [?a]) init = ?s1" by (simp add: orch_eval)
  have 2: "step P (Settle 1 (Rejected StatsComputingError)) ?s1 = ?s2" by (simp add: orch_eval)
  have 3: "step P (Render [?a, ?b]) ?s2 = ?s3" by (simp add: orch_eval)
  show ?thesis by (simp only: run_Cons run_Nil 1 2 3)
qed

text \<open>
  Claim C3 says that a repository whose fetch rejects with \<^verbatim>\<open>StatsComputingError\<close> is
  retried after one poll interval, again and again, until the client resolves or fails
  hard. The function returned by the effect clears every timer, and React runs it before
  each new run of the effect, not only on unmount. After \<^verbatim>\<open>o/a\<close> has been rejected with
  \<^verbatim>\<open>StatsComputingError\<close> its retry is scheduled one poll interval ahead; when \<^verbatim>\<open>o/b\<close>
  is added before the timer fires, the timer is cancelled, and the pass skips \<^verbatim>\<open>o/a\<close>
  because it is computing. From then on, whatever happens while \<^verbatim>\<open>o/a\<close> stays
  selected, it remains computing and the client has been called for it only once.
\<close>

theorem computing_repo_never_retried:
  assumes "keeps_selected ''o/a'' evs"
  shows "timeouts (run P [Render [\<lparr>owner = ''o'', name = ''a''\<rparr>],
                          Settle 1 (Rejected StatsComputingError)] init)
           = [(2, P, \<lparr>owner = ''o'', name = ''a''\<rparr>)] \<and>
         timeouts (run P [Render [\<lparr>owner = ''o'', name = ''a''\<rparr>],
                          Settle 1 (Rejected StatsComputingError),
                          Render [\<lparr>owner = ''o'', name = ''a''\<rparr>, \<lparr>owner = ''o'', name = ''b''\<rparr>]] init) = [] \<and>
         stuck_computing ''o/a''
           (run P ([Render [\<lparr>owner = ''o'', name = ''a''\<rparr>],
                    Settle 1 (Rejected StatsComputingError),
                    Render [\<lparr>owner = ''o'', name = ''a''\<rparr>, \<lparr>owner = ''o'', name = ''b''\<rparr>]] @ evs) init) \<and>
         fetches_of ''o/a''
           (run P ([Render [\<lparr>owner = ''o'', name = ''a''\<rparr>],
                    Settle 1 (Rejected StatsComputingError),
                    Render [\<lparr>owner = ''o'', name = ''a''\<rparr>, \<lparr>owner = ''o'', name = ''b''\<rparr>]] @ evs) init)
           = [\<lparr>owner = ''o'', name = ''a''\<rparr>]"
proof -
  let ?tr = "[Render [\<lparr>owner = ''o'', name = ''a''\<rparr>], Settle 1 (Rejected StatsComputingError),
              Render [\<lparr>owner = ''o'', name = ''a''\<rparr>, \<lparr>owner = ''o'', name = ''b''\<rparr>]]"
  note tr1 = stuck_trace [of P, THEN conjunct1]
  note tr2 = stuck_trace [of P, THEN conjunct2]
  have st: "stuck_computing ''o/a'' (run P ?tr init)"
    unfolding tr2 by (simp add: stuck_computing_def repo_key_def)
  have f: "fetches_of ''o/a'' (run P ?tr init) = [\<lparr>owner = ''o'', name = ''a''\<rparr>]"
    unfolding tr2 by (simp add: fetches_of_def repo_key_def)
  have t1: "timeouts (run P [Render [\<lparr>owner = ''o'', name = ''a''\<rparr>],
                             Settle 1 (Rejected StatsComputingError)] init)
              = [(2, P, \<lparr>owner = ''o'', name = ''a''\<rparr>)]"
    unfolding tr1 by simp
  have t2: "timeouts (run P ?tr init) = []"
    unfolding tr2 by simp
  from stuck_forever [OF st assms, of P] f t1 t2 show ?thesis
    unfolding run_append by simp
qed

theorem computing_repo_never_retried_witness:
  "keeps_selected ''o/a'' [Advance 5000, TimerFires 2, Advance 60000,
      Render [\<lparr>owner = ''o'', name = ''a''\<rparr>, \<lparr>owner = ''o'', name = ''b''\<rparr>, \<lparr>owner = ''o'', name = ''c''\<rparr>]] \<and>
   fetches_of ''o/a''
     (run 5000 ([Render [\<lparr>owner = ''o'', name = ''a''\<rparr>],
                 Settle 1 (Rejected StatsComputingError),
                 Render [\<lparr>owner = ''o'', name = ''a''\<rparr>, \<lparr>owner = ''o'', name = ''b''\<rparr>]] @
                [Advance 5000, TimerFires 2, Advance 60000,
                 Render [\<lparr>owner = ''o'', name = ''a''\<rparr>, \<lparr>owner = ''o'', name = ''b''\<rparr>, \<lparr>owner = ''o'', name = ''c''\<rparr>]]) init)
     = [\<lparr>owner = ''o'', name = ''a''\<rparr>]"
proof -
  have k: "keeps_selected ''o/a'' [Advance 5000, TimerFires 2, Advance 60000,
      Render [\<lparr>owner = ''o'', name = ''a''\<rparr>, \<lparr>owner = ''o'', name = ''b''\<rparr>, \<lparr>owner = ''o'', name = ''c''\<rparr>]]"
    by (simp add: keeps_selected_def repo_key_def)
  from computing_repo_never_retried [OF k, of 5000] k show ?thesis by blast
qed

end
